theory Spec2Isabelle
  imports Complex_Main "HOL-Library.Sublist"
begin

section \<open>Canonical finding model (src/schemas/index.ts)\<close>

text \<open>
  The enumerations of the schema file. A JavaScript \<open>number\<close> that passed a
  \<open>z.number()\<close> check is modelled as a \<open>real\<close>: the code only compares such
  numbers with integer thresholds and copies them around.
\<close>

datatype Severity = Critical | High | Medium | Low | Info

datatype Confidence = Confirmed | Suspected | NeedsReview

datatype VulnStatus = Open | Triaged | Mitigated | Closed

text \<open>
  \<open>cveSchema\<close>: a CVE reference is an id with an optional CVSS block; inside the
  block the base score is required, vector and version are optional.
\<close>

record Cvss =
  baseScore :: real
  vector :: "string option"
  version :: "string option"

record CveRef =
  cve_id :: string
  cvss :: "Cvss option"

text \<open>
  The values found in an evidence bag (\<open>Record<string, unknown>\<close>) of the two
  parsers: strings, numbers and lists of strings. The bag keeps its keys in insertion
  order, as a JavaScript object does.
\<close>

datatype jvalue = JString string | JNumber real | JStrings "string list"

text \<open>
  \<open>vulnerabilitySchema\<close> merged with \<open>baseDocumentSchema\<close>. The \<open>_id\<close> of the
  store is not set by any function modelled here and is left out. \<open>reconId\<close> is
  \<open>z.any()\<close> in the schema; the parsers store the string they are given, and the key of
  \<open>mergeFindings\<close> interpolates it into a string.
\<close>

record Vulnerability =
  reconId :: string
  source :: string
  scannerFindingId :: "string option"
  title :: string
  severity :: Severity
  confidence :: Confidence
  category :: "string option"
  description :: "string option"
  evidence :: "(string \<times> jvalue) list option"
  cves :: "CveRef list"
  remediation :: "string option"
  status :: VulnStatus
  reportedAt :: "string option"
  resolvedAt :: "string option"
  tags :: "string list"
  createdAt :: string
  updatedAt :: string

section \<open>JavaScript operators and built-ins used by the code\<close>

text \<open>The operator \<open>a ?? b\<close> on optional values.\<close>

definition nullish :: "'a option \<Rightarrow> 'a option \<Rightarrow> 'a option" where
  "nullish a b = (case a of None \<Rightarrow> b | Some x \<Rightarrow> Some x)"

text \<open>
  \<open>String.prototype.split\<close> with a one-character separator: the pieces between the
  separators, so that a string without separator gives one piece and the empty string
  gives one empty piece.
\<close>

fun split :: "char \<Rightarrow> string \<Rightarrow> string list" where
  "split sep [] = [[]]"
| "split sep (c # cs) =
     (if c = sep then [] # split sep cs
      else (case split sep cs of
              [] \<Rightarrow> [[c]]
            | p # ps \<Rightarrow> (c # p) # ps))"

text \<open>
  \<open>String.prototype.toLowerCase\<close> is not modelled by a definition: the functions that
  call it (\<open>normalizeSeverity\<close>, \<open>suggestCvesFromTech\<close>) take it as their first
  argument \<open>toLowerCase\<close>, and what is proved about them holds for every such function,
  JavaScript's included.
\<close>


text \<open>
  A truthiness test on an optional string, as in \<open>if (params.description)\<close>: absent and
  empty strings are falsy.
\<close>

definition truthy :: "string option \<Rightarrow> bool" where
  "truthy s = (case s of None \<Rightarrow> False | Some x \<Rightarrow> x \<noteq> [])"

definition whenTruthy :: "string option \<Rightarrow> string option" where
  "whenTruthy s = (if truthy s then s else None)"

section \<open>Finding Normalizer: severity derivation (src/vuln/parse.ts)\<close>

text \<open>
  \<open>severityFromCvss(score?: number)\<close>: the optional argument is an option; the
  first line of the source returns \<open>"medium"\<close> when no number is given.
\<close>

definition severityFromCvss :: "real option \<Rightarrow> Severity" where
  "severityFromCvss score =
     (case score of
        None \<Rightarrow> Medium
      | Some s \<Rightarrow>
          if s \<ge> 9 then Critical
          else if s \<ge> 7 then High
          else if s \<ge> 4 then Medium
          else if s > 0 then Low
          else Info)"

section \<open>Finding Normalizer: merge (src/vuln/parse.ts)\<close>

text \<open>
  The key of \<open>mergeFindings\<close> is the template string
  \<open>`${finding.reconId}:${finding.source}:${finding.title}`\<close>: the three fields
  joined by colons into one string.
\<close>

definition findingKey :: "Vulnerability \<Rightarrow> string" where
  "findingKey finding = reconId finding @ '':'' @ source finding @ '':'' @ title finding"

text \<open>
  One iteration of the \<open>forEach\<close> body on the pair of \<open>seen\<close> (a \<open>Set\<close> of keys,
  kept as the list of its members in insertion order) and \<open>merged\<close>.
\<close>

definition mergeStep ::
  "string list \<times> Vulnerability list \<Rightarrow> Vulnerability \<Rightarrow> string list \<times> Vulnerability list" where
  "mergeStep acc finding =
     (let seen = fst acc; merged = snd acc; key = findingKey finding
      in if key \<in> set seen then (seen, merged)
         else (seen @ [key], merged @ [finding]))"

text \<open>The \<open>forEach\<close> loop from the empty \<open>seen\<close> and \<open>merged\<close>.\<close>

definition mergeLoop :: "Vulnerability list \<Rightarrow> string list \<times> Vulnerability list" where
  "mergeLoop fs = foldl mergeStep ([], []) fs"

definition mergeFindings :: "Vulnerability list list \<Rightarrow> Vulnerability list" where
  "mergeFindings findingLists = snd (mergeLoop (concat findingLists))"

section \<open>Finding Normalizer: the two parsers (src/vuln/parse.ts)\<close>

definition normalizeSeverity :: "(string \<Rightarrow> string) \<Rightarrow> string option \<Rightarrow> Severity" where
  "normalizeSeverity toLowerCase raw =
     (let normalized = toLowerCase (case raw of None \<Rightarrow> ''medium'' | Some r \<Rightarrow> r)
      in if normalized = ''critical'' then Critical
         else if normalized = ''high'' then High
         else if normalized = ''medium'' then Medium
         else if normalized = ''low'' then Low
         else if normalized = ''info'' then Info
         else Medium)"

text \<open>
  \<open>pruneEmpty\<close> deletes the keys whose value is \<open>undefined\<close>, \<open>null\<close> or the empty
  string. The bag under construction lists every key with an optional value.
\<close>

definition pruneEmpty :: "(string \<times> jvalue option) list \<Rightarrow> (string \<times> jvalue) list" where
  "pruneEmpty obj =
     concat (map (\<lambda>kv. case snd kv of
                          None \<Rightarrow> []
                        | Some v \<Rightarrow> if v = JString [] then [] else [(fst kv, v)]) obj)"

record BaseParams =
  p_reconId :: string
  p_source :: string
  p_title :: string
  p_severity :: Severity
  p_confidence :: Confidence
  p_description :: "string option"
  p_evidence :: "(string \<times> jvalue) list option"
  p_cves :: "CveRef list option"
  p_category :: "string option"
  p_remediation :: "string option"

text \<open>
  \<open>baseVulnerability\<close> with \<open>stampMetadata\<close> and the schema's defaults applied. The
  time \<open>new Date().toISOString()\<close> read by \<open>stampMetadata\<close> is the argument \<open>now\<close>; such
  a string passes the schema's date check, and the other fields are valid by
  construction, so \<open>vulnerabilitySchema.parse\<close> returns.
\<close>

definition baseVulnerability :: "string \<Rightarrow> BaseParams \<Rightarrow> Vulnerability" where
  "baseVulnerability now params =
     \<lparr>reconId = p_reconId params,
      source = p_source params,
      scannerFindingId = None,
      title = p_title params,
      severity = p_severity params,
      confidence = p_confidence params,
      category = whenTruthy (p_category params),
      description = whenTruthy (p_description params),
      evidence = (case p_evidence params of
                    None \<Rightarrow> None
                  | Some e \<Rightarrow> if e \<noteq> [] then Some e else None),
      cves = (case p_cves params of
                None \<Rightarrow> []
              | Some c \<Rightarrow> if c \<noteq> [] then c else []),
      remediation = whenTruthy (p_remediation params),
      status = Open,
      reportedAt = None,
      resolvedAt = None,
      tags = [],
      createdAt = now,
      updatedAt = now\<rparr>"

text \<open>The records \<open>nucleiSchema\<close> accepts.\<close>

record NucleiInfo =
  info_name :: string
  info_severity :: "string option"
  info_description :: "string option"
  info_reference :: "string list option"
  info_cve :: "string option"
  info_tags :: "string list option"
  info_cvss_score :: "real option"

record NucleiFinding =
  templateID :: string
  info :: NucleiInfo
  finding_host :: string
  matched_at :: "string option"
  request :: "string option"
  response :: "string option"
  timestamp :: "string option"

text \<open>\<open>Array.prototype.join\<close>.\<close>

fun join :: "string \<Rightarrow> string list \<Rightarrow> string" where
  "join sep [] = []"
| "join sep [x] = x"
| "join sep (x # y # ys) = x @ sep @ join sep (y # ys)"

text \<open>
  The callback of \<open>parsed.data.map\<close> in \<open>parseNucleiResults\<close>, for one record and the
  time its \<open>baseVulnerability\<close> call reads.
\<close>

definition nucleiFinding ::
  "(string \<Rightarrow> string) \<Rightarrow> string \<Rightarrow> string \<Rightarrow> string \<Rightarrow> NucleiFinding \<Rightarrow> Vulnerability" where
  "nucleiFinding toLowerCase now optReconId optJobId finding =
     (let severity = normalizeSeverity toLowerCase (info_severity (info finding));
          confidence = (if truthy (info_cve (info finding)) then Confirmed else NeedsReview);
          cves = (case info_cve (info finding) of
                    None \<Rightarrow> []
                  | Some c \<Rightarrow>
                      if c \<noteq> []
                      then [\<lparr>cve_id = c,
                             cvss = (case info_cvss_score (info finding) of
                                       None \<Rightarrow> None
                                     | Some sc \<Rightarrow>
                                         Some \<lparr>baseScore = sc, vector = None,
                                               version = Some ''3.x''\<rparr>)\<rparr>]
                      else []);
          evidence = pruneEmpty
            [(''host'', Some (JString (finding_host finding))),
             (''matchedAt'', map_option JString (matched_at finding)),
             (''request'', map_option JString (request finding)),
             (''response'', map_option JString (response finding)),
             (''templateId'', Some (JString (templateID finding))),
             (''timestamp'', map_option JString (timestamp finding)),
             (''references'', map_option JStrings (info_reference (info finding))),
             (''jobId'', Some (JString optJobId))]
      in baseVulnerability now
           \<lparr>p_reconId = optReconId,
            p_source = ''nuclei'',
            p_title = info_name (info finding),
            p_severity = severity,
            p_confidence = confidence,
            p_description = whenTruthy (info_description (info finding)),
            p_evidence = Some evidence,
            p_cves = Some cves,
            p_category = (case info_tags (info finding) of
                            None \<Rightarrow> None
                          | Some ts \<Rightarrow> if ts \<noteq> [] then Some (join '', '' ts) else None),
            p_remediation = None\<rparr>)"

text \<open>
  \<open>parseNucleiResults\<close>: \<open>raw\<close> is \<open>None\<close> when \<open>nucleiSchema.safeParse\<close> rejects the
  payload. The \<open>k\<close>-th record is stamped with the time \<open>clock k\<close>.
\<close>

record 'raw ParseOptions =
  opt_reconId :: string
  opt_jobId :: string
  opt_raw :: "'raw option"

definition parseNucleiResults ::
  "(string \<Rightarrow> string) \<Rightarrow> (nat \<Rightarrow> string) \<Rightarrow> NucleiFinding list ParseOptions \<Rightarrow> Vulnerability list" where
  "parseNucleiResults toLowerCase clock options =
     (case opt_raw options of
        None \<Rightarrow> []
      | Some data \<Rightarrow>
          map (\<lambda>k. nucleiFinding toLowerCase (clock k) (opt_reconId options) (opt_jobId options)
                      (data ! k))
            [0..<length data])"

text \<open>
  The document \<open>nmapSchema\<close> accepts. \<open>port.script?.vulners\<close> is one optional list: it
  is absent when \<open>script\<close> or \<open>vulners\<close> is.
\<close>

record NmapVulner =
  vulner_id :: string
  vulner_cvss :: "real option"
  vulner_description :: "string option"

record NmapPort =
  port_number :: real
  port_service :: "string option"
  port_product :: "string option"
  port_version :: "string option"
  port_vulners :: "NmapVulner list option"

record NmapHost =
  nmap_host :: string
  nmap_ports :: "NmapPort list"

text \<open>
  The body of the inner \<open>forEach\<close> of \<open>parseNmapVulnerabilities\<close>: one finding pushed
  onto \<open>results\<close>. The title interpolates the port number; the conversion of a number
  to its string is the argument \<open>numberToString\<close>. The finding is stamped with the time
  of the clock at the number of findings pushed so far.
\<close>

definition nmapFinding ::
  "(real \<Rightarrow> string) \<Rightarrow> string \<Rightarrow> string \<Rightarrow> string \<Rightarrow> string \<Rightarrow> NmapPort \<Rightarrow> NmapVulner \<Rightarrow> Vulnerability" where
  "nmapFinding numberToString now optReconId optJobId host port entry =
     (let severity = severityFromCvss (vulner_cvss entry);
          evidence = pruneEmpty
            [(''host'', Some (JString host)),
             (''port'', Some (JNumber (port_number port))),
             (''service'', map_option JString (port_service port)),
             (''product'', map_option JString (port_product port)),
             (''version'', map_option JString (port_version port)),
             (''jobId'', Some (JString optJobId))];
          cves = [\<lparr>cve_id = vulner_id entry,
                   cvss = (case vulner_cvss entry of
                             None \<Rightarrow> None
                           | Some sc \<Rightarrow>
                               Some \<lparr>baseScore = sc, vector = None, version = Some ''3.x''\<rparr>)\<rparr>]
      in baseVulnerability now
           \<lparr>p_reconId = optReconId,
            p_source = ''nmap'',
            p_title = vulner_id entry @ '' on port '' @ numberToString (port_number port),
            p_severity = severity,
            p_confidence = Suspected,
            p_description = whenTruthy (vulner_description entry),
            p_evidence = Some evidence,
            p_cves = Some cves,
            p_category = whenTruthy (nullish (port_service port) (port_product port)),
            p_remediation = None\<rparr>)"

definition nmapPortStep ::
  "(real \<Rightarrow> string) \<Rightarrow> (nat \<Rightarrow> string) \<Rightarrow> string \<Rightarrow> string \<Rightarrow> string \<Rightarrow>
   Vulnerability list \<Rightarrow> NmapPort \<Rightarrow> Vulnerability list" where
  "nmapPortStep numberToString clock optReconId optJobId host results port =
     foldl (\<lambda>res entry.
              res @ [nmapFinding numberToString (clock (length res)) optReconId optJobId host port entry])
       results
       (case port_vulners port of None \<Rightarrow> [] | Some vs \<Rightarrow> vs)"

definition parseNmapVulnerabilities ::
  "(real \<Rightarrow> string) \<Rightarrow> (nat \<Rightarrow> string) \<Rightarrow> NmapHost ParseOptions \<Rightarrow> Vulnerability list" where
  "parseNmapVulnerabilities numberToString clock options =
     (case opt_raw options of
        None \<Rightarrow> []
      | Some data \<Rightarrow>
          foldl (nmapPortStep numberToString clock (opt_reconId options) (opt_jobId options)
                   (nmap_host data))
            [] (nmap_ports data))"

section \<open>CVE Correlator (src/vuln/matcher.ts)\<close>

record CveDetail =
  detail_id :: string
  detail_baseScore :: "real option"
  detail_vector :: "string option"
  cpes :: "string list"

text \<open>
  The index is a \<open>Map<string, CveDetail>\<close>: an association list in insertion order;
  \<open>index.get\<close> is \<open>map_of\<close>.
\<close>

text \<open>The callback of the inner \<open>finding.cves.map\<close>.\<close>

definition enrichEntry :: "(string \<times> CveDetail) list \<Rightarrow> CveRef \<Rightarrow> CveRef" where
  "enrichEntry index entry =
     (case map_of index (cve_id entry) of
        None \<Rightarrow> entry
      | Some detail \<Rightarrow>
          (case nullish (detail_baseScore detail) (map_option baseScore (cvss entry)) of
             None \<Rightarrow> entry
           | Some b \<Rightarrow>
               \<lparr>cve_id = cve_id entry,
                cvss = Some \<lparr>baseScore = b,
                             vector = nullish (detail_vector detail) (Option.bind (cvss entry) vector),
                             version = nullish (Option.bind (cvss entry) version) (Some ''3.x'')\<rparr>\<rparr>))"

definition enrichFinding :: "(string \<times> CveDetail) list \<Rightarrow> Vulnerability \<Rightarrow> Vulnerability" where
  "enrichFinding index finding =
     (if cves finding = [] then finding
      else finding\<lparr>cves := map (enrichEntry index) (cves finding)\<rparr>)"

definition enrichVulnerabilitiesWithNvd ::
  "Vulnerability list \<Rightarrow> (string \<times> CveDetail) list \<Rightarrow> Vulnerability list" where
  "enrichVulnerabilitiesWithNvd vulns index = map (enrichFinding index) vulns"









section \<open>Result Normalizer (normalizeRecon)\<close>

text \<open>
  The payloads the four source schemas accept, with the fields the function reads.
  Arrays with a schema default (\<open>nodes\<close>, \<open>addresses\<close>, \<open>sources\<close>, \<open>records\<close>, \<open>ports\<close>) are
  lists; optional arrays passed through \<open>ensureArray\<close> are optional lists.
\<close>

record SubfinderEntry =
  sf_host :: string
  sf_source :: "string option"
  sf_ip :: "string option"

record AmassNode =
  node_name :: string
  node_addresses :: "string list"
  node_sources :: "string list"

record HttpxEntry =
  hx_host :: string
  hx_port :: real
  hx_scheme :: string
  hx_status_code :: real
  hx_title :: "string option"
  hx_webserver :: "string option"
  hx_tech :: "string list option"
  hx_a :: "string list option"

record TrailsPort =
  tp_port :: real
  tp_protocol :: "string option"
  tp_service :: "string option"

record TrailsRecord =
  st_hostname :: string
  st_organization :: "string option"
  st_country :: "string option"
  st_ports :: "TrailsPort list"

text \<open>
  \<open>ReconInputs\<close>: a source is \<open>None\<close> when its payload is absent (falsy) or rejected by
  \<open>safeParse\<close>; in both cases the function skips it.
\<close>

record ReconInputs =
  targetId :: string
  primaryTarget :: string
  jobId :: string
  subfinder :: "SubfinderEntry list option"
  amass :: "AmassNode list option"
  httpx :: "HttpxEntry list option"
  securitytrails :: "TrailsRecord list option"

record PortInfo =
  pi_protocol :: "string option"
  pi_service :: "string option"

text \<open>
  \<open>HostEntry\<close>: a \<open>Set\<close> is the list of its members in insertion order, a \<open>Map\<close> the
  list of its entries in insertion order.
\<close>

record HostEntry =
  host :: string
  ips :: "string list"
  ports :: "(real \<times> PortInfo) list"
  tech :: "string list"
  sources :: "string list"
  titles :: "string list"
  webservers :: "string list"
  liveness :: bool

text \<open>\<open>Set.prototype.add\<close>, \<open>Map.prototype.set\<close> and \<open>ensureArray\<close>.\<close>

definition setAdd :: "'a \<Rightarrow> 'a list \<Rightarrow> 'a list" where
  "setAdd x xs = (if x \<in> set xs then xs else xs @ [x])"

definition mapSet :: "'k \<Rightarrow> 'v \<Rightarrow> ('k \<times> 'v) list \<Rightarrow> ('k \<times> 'v) list" where
  "mapSet k v m =
     (if k \<in> fst ` set m then map (\<lambda>kv. if fst kv = k then (k, v) else kv) m
      else m @ [(k, v)])"

definition ensureArray :: "'a list option \<Rightarrow> 'a list" where
  "ensureArray xs = (case xs of None \<Rightarrow> [] | Some l \<Rightarrow> l)"

definition newHost :: "string \<Rightarrow> HostEntry" where
  "newHost h =
     \<lparr>host = h, ips = [], ports = [], tech = [], sources = [], titles = [],
      webservers = [], liveness = False\<rparr>"

text \<open>
  \<open>upsertHost\<close> returns the record stored under the host, after storing a fresh one if
  there was none. The caller then mutates that record in place; \<open>withHost\<close> is
  \<open>upsertHost\<close> followed by the caller's changes \<open>f\<close>, written back into the map.
\<close>

definition upsertHost ::
  "(string \<times> HostEntry) list \<Rightarrow> string \<Rightarrow> (string \<times> HostEntry) list \<times> HostEntry" where
  "upsertHost m h =
     (case map_of m h of
        None \<Rightarrow> (m @ [(h, newHost h)], newHost h)
      | Some record \<Rightarrow> (m, record))"

definition withHost ::
  "(string \<times> HostEntry) list \<Rightarrow> string \<Rightarrow> (HostEntry \<Rightarrow> HostEntry) \<Rightarrow> (string \<times> HostEntry) list" where
  "withHost m h f = (let (m', record) = upsertHost m h in mapSet h (f record) m')"

text \<open>The bodies of the four \<open>forEach\<close> callbacks, as changes to the host's record.\<close>

definition subfinderUpdate :: "SubfinderEntry \<Rightarrow> HostEntry \<Rightarrow> HostEntry" where
  "subfinderUpdate entry hostRecord =
     (let r1 = (case sf_ip entry of
                  None \<Rightarrow> hostRecord
                | Some ip \<Rightarrow> if ip \<noteq> [] then hostRecord\<lparr>ips := setAdd ip (ips hostRecord)\<rparr>
                             else hostRecord)
      in (case sf_source entry of
            None \<Rightarrow> r1
          | Some src \<Rightarrow> if src \<noteq> [] then r1\<lparr>sources := setAdd (''subfinder:'' @ src) (sources r1)\<rparr>
                        else r1))"

definition amassUpdate :: "AmassNode \<Rightarrow> HostEntry \<Rightarrow> HostEntry" where
  "amassUpdate node hostRecord =
     (let r1 = foldl (\<lambda>r ip. r\<lparr>ips := setAdd ip (ips r)\<rparr>) hostRecord (node_addresses node)
      in foldl (\<lambda>r src. r\<lparr>sources := setAdd (''amass:'' @ src) (sources r)\<rparr>) r1 (node_sources node))"

definition httpxPort :: "HttpxEntry \<Rightarrow> (real \<times> PortInfo) list \<Rightarrow> (real \<times> PortInfo) list" where
  "httpxPort entry ps =
     (let portInfo = (case map_of ps (hx_port entry) of
                        None \<Rightarrow> \<lparr>pi_protocol = None, pi_service = None\<rparr>
                      | Some i \<Rightarrow> i);
          p1 = portInfo\<lparr>pi_protocol := nullish (pi_protocol portInfo) (Some ''tcp'')\<rparr>;
          p2 = p1\<lparr>pi_service := nullish (pi_service p1) (Some (hx_scheme entry))\<rparr>
      in mapSet (hx_port entry) p2 ps)"

definition httpxUpdate :: "HttpxEntry \<Rightarrow> HostEntry \<Rightarrow> HostEntry" where
  "httpxUpdate entry hostRecord =
     (let r1 = hostRecord\<lparr>liveness := liveness hostRecord \<or> hx_status_code entry < 500\<rparr>;
          r2 = (case hx_title entry of
                  None \<Rightarrow> r1
                | Some t \<Rightarrow> if t \<noteq> [] then r1\<lparr>titles := setAdd t (titles r1)\<rparr> else r1);
          r3 = (case hx_webserver entry of
                  None \<Rightarrow> r2
                | Some w \<Rightarrow> if w \<noteq> [] then r2\<lparr>webservers := setAdd w (webservers r2)\<rparr> else r2);
          r4 = foldl (\<lambda>r t. r\<lparr>tech := setAdd t (tech r)\<rparr>) r3 (ensureArray (hx_tech entry));
          r5 = foldl (\<lambda>r ip. r\<lparr>ips := setAdd ip (ips r)\<rparr>) r4 (ensureArray (hx_a entry))
      in r5\<lparr>ports := httpxPort entry (ports r5)\<rparr>)"

definition trailsPort :: "(real \<times> PortInfo) list \<Rightarrow> TrailsPort \<Rightarrow> (real \<times> PortInfo) list" where
  "trailsPort ps p =
     (let info = (case map_of ps (tp_port p) of
                    None \<Rightarrow> \<lparr>pi_protocol = None, pi_service = None\<rparr>
                  | Some i \<Rightarrow> i);
          i1 = (if truthy (tp_protocol p)
                then info\<lparr>pi_protocol := nullish (pi_protocol info) (tp_protocol p)\<rparr>
                else info);
          i2 = (if truthy (tp_service p)
                then i1\<lparr>pi_service := nullish (pi_service i1) (tp_service p)\<rparr>
                else i1)
      in mapSet (tp_port p) i2 ps)"

definition trailsUpdate :: "TrailsRecord \<Rightarrow> HostEntry \<Rightarrow> HostEntry" where
  "trailsUpdate record hostRecord =
     (let r1 = (case st_organization record of
                  None \<Rightarrow> hostRecord
                | Some org \<Rightarrow>
                    if org \<noteq> []
                    then hostRecord\<lparr>sources := setAdd (''securitytrails:'' @ org) (sources hostRecord)\<rparr>
                    else hostRecord)
      in r1\<lparr>ports := foldl trailsPort (ports r1) (st_ports record)\<rparr>)"

text \<open>\<open>countryByHost.set(record.hostname, record.country)\<close>, when the country is truthy.\<close>

definition trailsCountry :: "(string \<times> string) list \<Rightarrow> TrailsRecord \<Rightarrow> (string \<times> string) list" where
  "trailsCountry countryByHost record =
     (case st_country record of
        None \<Rightarrow> countryByHost
      | Some c \<Rightarrow> if c \<noteq> [] then mapSet (st_hostname record) c countryByHost else countryByHost)"

text \<open>
  The state after the four \<open>if (inputs.\<dots>)\<close> blocks: \<open>hostMap\<close>, \<open>countryByHost\<close> and
  \<open>sourcesMeta\<close>.
\<close>

definition collectHosts :: "ReconInputs \<Rightarrow> (string \<times> HostEntry) list" where
  "collectHosts inputs =
     (let m1 = foldl (\<lambda>m entry. withHost m (sf_host entry) (subfinderUpdate entry)) []
                 (ensureArray (subfinder inputs));
          m2 = foldl (\<lambda>m node. withHost m (node_name node) (amassUpdate node)) m1
                 (ensureArray (amass inputs));
          m3 = foldl (\<lambda>m entry. withHost m (hx_host entry) (httpxUpdate entry)) m2
                 (ensureArray (httpx inputs))
      in foldl (\<lambda>m record. withHost m (st_hostname record) (trailsUpdate record)) m3
           (ensureArray (securitytrails inputs)))"

definition collectCountries :: "ReconInputs \<Rightarrow> (string \<times> string) list" where
  "collectCountries inputs = foldl trailsCountry [] (ensureArray (securitytrails inputs))"

definition sourcesMeta :: "ReconInputs \<Rightarrow> string list" where
  "sourcesMeta inputs =
     (if subfinder inputs \<noteq> None then [''subfinder''] else []) @
     (if amass inputs \<noteq> None then [''amass''] else []) @
     (if httpx inputs \<noteq> None then [''httpx''] else []) @
     (if securitytrails inputs \<noteq> None then [''securitytrails''] else [])"

text \<open>
  The canonical record (\<open>reconResultSchema\<close> without \<open>_id\<close>). \<open>portSchema\<close> wants an
  integer port from 1 to 65535 and the protocol \<open>tcp\<close> or \<open>udp\<close>; \<open>reconResultBase.parse\<close>
  throws a \<open>ZodError\<close> otherwise. Each technology is an object with the name only, kept
  here as the name.
\<close>

datatype ServiceProtocol = Tcp | Udp

datatype ZodError = ZodError

record Port =
  port :: real
  protocol :: ServiceProtocol
  service :: "string option"

record Fingerprints =
  fp_titles :: "string list"
  fp_webservers :: "string list"
  fp_country :: "string option"

record SourceRef =
  tool :: string
  runId :: string
  contributors :: "string list"
  pipeline :: "string list"

record ReconResult =
  rr_targetId :: string
  subdomain :: string
  ip :: "string option"
  rr_ports :: "Port list"
  rr_tech :: "string list"
  fingerprints :: Fingerprints
  rr_sources :: "SourceRef list"
  isAlive :: bool
  lastChecked :: string
  rr_tags :: "string list"
  rr_createdAt :: string
  rr_updatedAt :: string

definition parsePort :: "real \<times> PortInfo \<Rightarrow> Port option" where
  "parsePort pd =
     (let p = fst pd;
          proto = (case pi_protocol (snd pd) of None \<Rightarrow> ''tcp'' | Some x \<Rightarrow> x)
      in if p = of_int \<lfloor>p\<rfloor> \<and> 1 \<le> p \<and> p \<le> 65535 \<and> (proto = ''tcp'' \<or> proto = ''udp'')
         then Some \<lparr>port = p, protocol = (if proto = ''tcp'' then Tcp else Udp),
                    service = pi_service (snd pd)\<rparr>
         else None)"

text \<open>
  The body of \<open>hostMap.forEach\<close> for one entry: \<open>now\<close> is the time read at the start of
  \<open>normalizeRecon\<close>, \<open>stamp\<close> the time read by \<open>stampMetadata\<close> for this entry.
\<close>

definition hostResult ::
  "string \<Rightarrow> string \<Rightarrow> ReconInputs \<Rightarrow> HostEntry \<Rightarrow> ZodError + ReconResult" where
  "hostResult now stamp inputs entry =
     (let ipValue = (case ips entry of [] \<Rightarrow> None | i # _ \<Rightarrow> Some i);
          country = map_of (collectCountries inputs) (host entry)
      in if list_all (\<lambda>pd. parsePort pd \<noteq> None) (ports entry)
         then Inr \<lparr>rr_targetId = targetId inputs,
                   subdomain = host entry,
                   ip = ipValue,
                   rr_ports = concat (map (\<lambda>pd. case parsePort pd of None \<Rightarrow> [] | Some p \<Rightarrow> [p])
                                        (ports entry)),
                   rr_tech = tech entry,
                   fingerprints = \<lparr>fp_titles = titles entry, fp_webservers = webservers entry,
                                   fp_country = whenTruthy country\<rparr>,
                   rr_sources = [\<lparr>tool = ''recon-normalize'', runId = jobId inputs,
                                  contributors = sources entry, pipeline = sourcesMeta inputs\<rparr>],
                   isAlive = liveness entry,
                   lastChecked = now,
                   rr_tags = [],
                   rr_createdAt = stamp,
                   rr_updatedAt = stamp\<rparr>
         else Inl ZodError)"

text \<open>
  \<open>hostMap.forEach\<close> pushing onto \<open>results\<close>; the first entry that fails the schema
  throws out of the function. The entry at position \<open>k\<close> is stamped with \<open>clock (k + 1)\<close>,
  \<open>clock 0\<close> being the time read at the start.
\<close>

fun buildResults ::
  "(nat \<Rightarrow> string) \<Rightarrow> ReconInputs \<Rightarrow> nat \<Rightarrow> HostEntry list \<Rightarrow> ZodError + ReconResult list" where
  "buildResults clock inputs k [] = Inr []"
| "buildResults clock inputs k (entry # entries) =
     (case hostResult (clock 0) (clock (k + 1)) inputs entry of
        Inl e \<Rightarrow> Inl e
      | Inr r \<Rightarrow>
          (case buildResults clock inputs (k + 1) entries of
             Inl e \<Rightarrow> Inl e
           | Inr rs \<Rightarrow> Inr (r # rs)))"

definition normalizeRecon :: "(nat \<Rightarrow> string) \<Rightarrow> ReconInputs \<Rightarrow> ZodError + ReconResult list" where
  "normalizeRecon clock inputs = buildResults clock inputs 0 (map snd (collectHosts inputs))"

text \<open>
  Bookkeeping for the proofs: the record a host has in a map, a fresh record if it has
  none; and the records of one host folded over a source's entries.
\<close>

definition entryOf :: "(string \<times> HostEntry) list \<Rightarrow> string \<Rightarrow> HostEntry" where
  "entryOf m h = (case map_of m h of None \<Rightarrow> newHost h | Some record \<Rightarrow> record)"

definition foldHost ::
  "('e \<Rightarrow> string) \<Rightarrow> ('e \<Rightarrow> HostEntry \<Rightarrow> HostEntry) \<Rightarrow> string \<Rightarrow> HostEntry \<Rightarrow> 'e list \<Rightarrow> HostEntry" where
  "foldHost key upd h r es = foldl (\<lambda>r e. if key e = h then upd e r else r) r es"

text \<open>The non-empty countries securitytrails reports for a host, in payload order.\<close>

definition reportedCountries :: "string \<Rightarrow> TrailsRecord list \<Rightarrow> string list" where
  "reportedCountries h records =
     concat (map (\<lambda>t. if st_hostname t = h
                         then (case st_country t of
                                 None \<Rightarrow> []
                               | Some c \<Rightarrow> if c \<noteq> [] then [c] else [])
                         else []) records)"

text \<open>A canonical record with the three timestamps blanked, to compare runs.\<close>

definition withoutTimestamps :: "ReconResult \<Rightarrow> ReconResult" where
  "withoutTimestamps r = r\<lparr>lastChecked := [], rr_createdAt := [], rr_updatedAt := []\<rparr>"

section \<open>Task Scheduler (runParallelAttacks, and runParallelRecon in src/cli/recon.ts)\<close>

text \<open>
  The two functions are the same worker pool; they differ in the stage operation
  (\<open>runAttackJob\<close>, \<open>runReconJob\<close>), the stagger (100 ms, 200 ms) and the names of the
  counters (\<open>successful\<close>, \<open>totalHosts\<close>). The items are documents of the store, so the
  guards \<open>if (!target) continue\<close> of \<open>runParallelRecon\<close> never take effect. The stage
  operation applied to an item either returns a count or throws.
\<close>

datatype outcome = Returns nat | Throws

text \<open>
  A worker promise of the pool: waiting for its stagger timer (initial batch only), with
  the operation in flight, or settled. Both handlers end in a fulfilled promise: the
  \<open>then\<close> handler with the operation's result, the \<open>catch\<close> handler with 0.
\<close>

datatype promise = Delayed | Running | Settled nat

text \<open>
  The variables of the function: the array \<open>workers\<close> (each promise with the item its
  closure holds), \<open>currentIndex\<close>, \<open>completed\<close> and \<open>successful\<close>.
\<close>

record 'a pool =
  workers :: "('a \<times> promise) list"
  currentIndex :: nat
  completed :: nat
  successful :: nat

text \<open>
  The initial \<open>for\<close> loop: the first \<open>min(maxConcurrent, length)\<close> items get a worker
  each, behind a timer.
\<close>

definition startPool :: "'a list \<Rightarrow> nat \<Rightarrow> 'a pool" where
  "startPool items maxConcurrent =
     \<lparr>workers = map (\<lambda>x. (x, Delayed)) (take (min maxConcurrent (length items)) items),
      currentIndex = min maxConcurrent (length items),
      completed = 0,
      successful = 0\<rparr>"

text \<open>
  What can happen next, in the single-threaded event loop:
  \<^item> \<open>TimerFires i\<close>: the stagger timer of worker \<open>i\<close> fires and its operation starts;
  \<^item> \<open>Settles i\<close>: the operation of worker \<open>i\<close> ends; its \<open>then\<close> or \<open>catch\<close> handler
    runs (\<open>completed++\<close>, and \<open>successful += result\<close> on success) and the worker promise
    is fulfilled;
  \<^item> \<open>RaceWon i\<close>: the \<open>await Promise.race(...)\<close> of the \<open>while\<close> loop resumes with the
    index \<open>i\<close> of a settled worker; the loop body puts the next item's operation, already
    started, into \<open>workers[i]\<close>. The loop runs only while \<open>currentIndex < length\<close>.
  Which settled worker wins a race depends on timing; the model allows any of them.
\<close>

datatype event = TimerFires nat | Settles nat | RaceWon nat

definition isSettled :: "promise \<Rightarrow> bool" where
  "isSettled p = (case p of Settled v \<Rightarrow> True | _ \<Rightarrow> False)"

definition fire :: "'a list \<Rightarrow> ('a \<Rightarrow> outcome) \<Rightarrow> event \<Rightarrow> 'a pool \<Rightarrow> 'a pool option" where
  "fire items operation ev s =
     (case ev of
        TimerFires i \<Rightarrow>
          if i < length (workers s) \<and> snd (workers s ! i) = Delayed
          then Some (s\<lparr>workers := (workers s)[i := (fst (workers s ! i), Running)]\<rparr>)
          else None
      | Settles i \<Rightarrow>
          if i < length (workers s) \<and> snd (workers s ! i) = Running
          then (case operation (fst (workers s ! i)) of
                  Returns result \<Rightarrow>
                    Some (s\<lparr>workers := (workers s)[i := (fst (workers s ! i), Settled result)],
                            completed := completed s + 1,
                            successful := successful s + result\<rparr>)
                | Throws \<Rightarrow>
                    Some (s\<lparr>workers := (workers s)[i := (fst (workers s ! i), Settled 0)],
                            completed := completed s + 1\<rparr>))
          else None
      | RaceWon i \<Rightarrow>
          if currentIndex s < length items \<and> i < length (workers s) \<and>
             isSettled (snd (workers s ! i))
          then Some (s\<lparr>workers := (workers s)[i := (items ! currentIndex s, Running)],
                      currentIndex := currentIndex s + 1\<rparr>)
          else None)"

text \<open>A schedule is a list of events; it runs as long as each event is possible.\<close>

fun runEvents :: "'a list \<Rightarrow> ('a \<Rightarrow> outcome) \<Rightarrow> event list \<Rightarrow> 'a pool \<Rightarrow> 'a pool option" where
  "runEvents items operation [] s = Some s"
| "runEvents items operation (ev # evs) s =
     (case fire items operation ev s of
        None \<Rightarrow> None
      | Some s' \<Rightarrow> runEvents items operation evs s')"

text \<open>
  After the loop, \<open>await Promise.allSettled(workers)\<close> resumes once every promise now in
  the array is settled, and the function returns the sum of their values.
\<close>

definition allSettled :: "'a list \<Rightarrow> 'a pool \<Rightarrow> bool" where
  "allSettled items s =
     (\<not> currentIndex s < length items \<and> list_all (\<lambda>w. isSettled (snd w)) (workers s))"

definition totalSuccessful :: "'a pool \<Rightarrow> nat" where
  "totalSuccessful s =
     foldl (\<lambda>sum w. sum + (case snd w of Settled v \<Rightarrow> v | _ \<Rightarrow> 0)) 0 (workers s)"

definition returned :: "'a list \<Rightarrow> 'a pool \<Rightarrow> nat option" where
  "returned items s = (if allSettled items s then Some (totalSuccessful s) else None)"

text \<open>
  The whole call under a schedule: the value returned, or \<open>None\<close> when the schedule is
  not a complete execution of the call.
\<close>

definition runParallel :: "'a list \<Rightarrow> ('a \<Rightarrow> outcome) \<Rightarrow> nat \<Rightarrow> event list \<Rightarrow> nat option" where
  "runParallel items operation maxConcurrent evs =
     (case runEvents items operation evs (startPool items maxConcurrent) of
        None \<Rightarrow> None
      | Some s \<Rightarrow> returned items s)"

text \<open>The operations not yet settled, and the value an item contributes when it settles.\<close>

definition inFlight :: "'a pool \<Rightarrow> nat" where
  "inFlight s = length (filter (\<lambda>w. \<not> isSettled (snd w)) (workers s))"

definition resultOf :: "('a \<Rightarrow> outcome) \<Rightarrow> 'a \<Rightarrow> nat" where
  "resultOf operation x = (case operation x of Returns result \<Rightarrow> result | Throws \<Rightarrow> 0)"

text \<open>
  Bookkeeping for the proofs about schedules. \<open>pendingWeight g s\<close> adds \<open>g\<close> over the
  items whose worker is not settled; \<open>remainingSteps\<close> counts the events still to come:
  two for an item not yet dispatched or behind its timer, one for an operation in flight.
\<close>

definition pendingWeight :: "('a \<Rightarrow> nat) \<Rightarrow> 'a pool \<Rightarrow> nat" where
  "pendingWeight g s =
     sum_list (map (\<lambda>w. if isSettled (snd w) then 0 else g (fst w)) (workers s))"

definition remainingSteps :: "'a list \<Rightarrow> 'a pool \<Rightarrow> nat" where
  "remainingSteps items s =
     2 * (length items - currentIndex s) +
     sum_list (map (\<lambda>w. case snd w of Delayed \<Rightarrow> 2 | Running \<Rightarrow> 1 | Settled v \<Rightarrow> 0) (workers s))"

definition poolInvariant :: "'a list \<Rightarrow> ('a \<Rightarrow> outcome) \<Rightarrow> nat \<Rightarrow> 'a pool \<Rightarrow> bool" where
  "poolInvariant items operation maxConcurrent s =
     (length (workers s) = min maxConcurrent (length items) \<and>
      currentIndex s \<le> length items \<and>
      completed s + pendingWeight (\<lambda>x. 1) s = currentIndex s \<and>
      successful s + pendingWeight (resultOf operation) s =
        sum_list (map (resultOf operation) (take (currentIndex s) items)))"

section \<open>Example data\<close>

text \<open>
  A finding as \<open>baseVulnerability\<close> produces it, with the three key fields given and
  every optional field absent; the concrete evaluations below start from it.
\<close>

definition exampleFinding :: "string \<Rightarrow> string \<Rightarrow> string \<Rightarrow> Vulnerability" where
  "exampleFinding r s t =
     \<lparr>reconId = r, source = s, scannerFindingId = None, title = t, severity = High,
      confidence = Suspected, category = None, description = None, evidence = None,
      cves = [], remediation = None, status = Open, reportedAt = None, resolvedAt = None,
      tags = [], createdAt = ''2025-10-01T12:00:00.000Z'',
      updatedAt = ''2025-10-01T12:00:00.000Z''\<rparr>"

text \<open>
  An index as \<open>buildCveIndex\<close> builds it: the first entry carries a base score and a
  vector, the second a vector only.
\<close>

definition exampleIndex :: "(string \<times> CveDetail) list" where
  "exampleIndex =
     [(''CVE-2024-0001'',
       \<lparr>detail_id = ''CVE-2024-0001'', detail_baseScore = Some 9.8,
        detail_vector = Some ''CVSS:3.1/AV:N'', cpes = []\<rparr>),
      (''CVE-2024-0002'',
       \<lparr>detail_id = ''CVE-2024-0002'', detail_baseScore = None,
        detail_vector = Some ''CVSS:3.1/AV:L'', cpes = []\<rparr>)]"

definition exampleWithCve :: "string \<Rightarrow> Cvss option \<Rightarrow> Vulnerability" where
  "exampleWithCve i c =
     (exampleFinding ''recon-1'' ''nuclei'' ''Example RCE'')\<lparr>cves := [\<lparr>cve_id = i, cvss = c\<rparr>]\<rparr>"

text \<open>
  A lower-casing function for the examples: the letters A to Z move to a to z and every
  other character stays, as \<open>toLowerCase\<close> does on ASCII strings.
\<close>

definition asciiLowerChar :: "char \<Rightarrow> char" where
  "asciiLowerChar c =
     (let n = (of_char c :: nat)
      in if 65 \<le> n \<and> n \<le> 90 then char_of (n + 32) else c)"

definition asciiLower :: "string \<Rightarrow> string" where
  "asciiLower s = map asciiLowerChar s"



text \<open>
  Decimal digits of a natural number: what JavaScript's number-to-string conversion
  gives on the port numbers of the examples.
\<close>

function decimal :: "nat \<Rightarrow> string" where
  "decimal n =
     (if n < 10 then [char_of (48 + n)]
      else decimal (n div 10) @ [char_of (48 + n mod 10)])"
  by pat_completeness auto
termination
  by (relation "measure id") auto

definition naturalToString :: "real \<Rightarrow> string" where
  "naturalToString r = decimal (nat \<lfloor>r\<rfloor>)"

definition exampleClock :: "nat \<Rightarrow> string" where
  "exampleClock k = ''2025-10-01T12:00:00.000Z''"

definition exampleNmap :: NmapHost where
  "exampleNmap =
     \<lparr>nmap_host = ''app.spacey.com'',
      nmap_ports =
        [\<lparr>port_number = 22, port_service = Some ''ssh'', port_product = Some ''OpenSSH'',
          port_version = Some ''8.4'',
          port_vulners = Some [\<lparr>vulner_id = ''CVE-2021-41617'', vulner_cvss = Some 7.0,
                                 vulner_description = None\<rparr>]\<rparr>]\<rparr>"

definition exampleNuclei :: "NucleiFinding list" where
  "exampleNuclei =
     [\<lparr>templateID = ''example-rce'',
       info = \<lparr>info_name = ''Example RCE'', info_severity = Some ''critical'',
               info_description = None, info_reference = None,
               info_cve = Some ''CVE-2024-0001'', info_tags = Some [''rce''],
               info_cvss_score = None\<rparr>,
       finding_host = ''app.spacey.com'', matched_at = None, request = None,
       response = None, timestamp = None\<rparr>,
      \<lparr>templateID = ''exposed-panel'',
       info = \<lparr>info_name = ''Exposed Panel'', info_severity = Some ''LOW'',
               info_description = None, info_reference = None,
               info_cve = None, info_tags = None, info_cvss_score = None\<rparr>,
       finding_host = ''app.spacey.com'', matched_at = None, request = None,
       response = None, timestamp = None\<rparr>]"

text \<open>A stage operation on numbers: it throws on 4 and returns its argument otherwise.\<close>

definition exampleOperation :: "nat \<Rightarrow> outcome" where
  "exampleOperation x = (if x = 4 then Throws else Returns x)"

text \<open>
  Recon inputs: subfinder and httpx report \<open>foo.bar\<close>; httpx sees it twice with two
  titles and two web servers, securitytrails twice with two countries.
\<close>

definition exampleRecon :: ReconInputs where
  "exampleRecon =
     \<lparr>targetId = ''target-fixture'', primaryTarget = ''bar'', jobId = ''job-fixture'',
      subfinder = Some [\<lparr>sf_host = ''foo.bar'', sf_source = Some ''crtsh'', sf_ip = Some ''1.2.3.4''\<rparr>],
      amass = None,
      httpx = Some
        [\<lparr>hx_host = ''foo.bar'', hx_port = 443, hx_scheme = ''https'', hx_status_code = 200,
          hx_title = Some ''Welcome'', hx_webserver = Some ''nginx'',
          hx_tech = Some [''nginx''], hx_a = Some [''1.2.3.4'', ''5.6.7.8'']\<rparr>,
         \<lparr>hx_host = ''foo.bar'', hx_port = 8080, hx_scheme = ''http'', hx_status_code = 503,
          hx_title = Some ''Maintenance'', hx_webserver = Some ''apache'',
          hx_tech = None, hx_a = None\<rparr>],
      securitytrails = Some
        [\<lparr>st_hostname = ''foo.bar'', st_organization = Some ''Bar Inc'', st_country = Some ''US'',
          st_ports = []\<rparr>,
         \<lparr>st_hostname = ''foo.bar'', st_organization = None, st_country = Some ''DE'',
          st_ports = [\<lparr>tp_port = 443, tp_protocol = Some ''udp'', tp_service = None\<rparr>]\<rparr>]\<rparr>"

definition exampleReconResult :: ReconResult where
  "exampleReconResult =
     \<lparr>rr_targetId = ''target-fixture'', subdomain = ''foo.bar'', ip = Some ''1.2.3.4'',
      rr_ports = [\<lparr>port = 443, protocol = Tcp, service = Some ''https''\<rparr>,
                  \<lparr>port = 8080, protocol = Tcp, service = Some ''http''\<rparr>],
      rr_tech = [''nginx''],
      fingerprints = \<lparr>fp_titles = [''Welcome'', ''Maintenance''],
                      fp_webservers = [''nginx'', ''apache''], fp_country = Some ''DE''\<rparr>,
      rr_sources = [\<lparr>tool = ''recon-normalize'', runId = ''job-fixture'',
                     contributors = [''subfinder:crtsh'', ''securitytrails:Bar Inc''],
                     pipeline = [''subfinder'', ''httpx'', ''securitytrails'']\<rparr>],
      isAlive = True, lastChecked = ''2025-10-01T12:00:00.000Z'', rr_tags = [],
      rr_createdAt = ''2025-10-01T12:00:00.000Z'', rr_updatedAt = ''2025-10-01T12:00:00.000Z''\<rparr>"

section \<open>Properties\<close>

subsection \<open>Severity derivation\<close>

text \<open>
  C4, as stated, asks that an absent score yields \<open>info\<close>. The code returns
  \<open>medium\<close> for an absent score.
\<close>

theorem severityFromCvss_absent_counterexample:
  "severityFromCvss None = Medium \<and> severityFromCvss None \<noteq> Info"
  by (simp add: severityFromCvss_def)

text \<open>
  C4 (amended): a score of at least 9 yields critical, at least 7 high, at least 4
  medium, above 0 low, and a score of 0 (or below) info; an absent score yields medium.
  In particular 9.5, 7.0, 4.0 and 0.1 map to critical, high, medium and low.
\<close>

theorem severityFromCvss_thresholds:
  "(9 \<le> s \<longrightarrow> severityFromCvss (Some s) = Critical) \<and>
   (7 \<le> s \<and> s < 9 \<longrightarrow> severityFromCvss (Some s) = High) \<and>
   (4 \<le> s \<and> s < 7 \<longrightarrow> severityFromCvss (Some s) = Medium) \<and>
   (0 < s \<and> s < 4 \<longrightarrow> severityFromCvss (Some s) = Low) \<and>
   (s \<le> 0 \<longrightarrow> severityFromCvss (Some s) = Info) \<and>
   severityFromCvss None = Medium"
  by (simp add: severityFromCvss_def)

theorem severityFromCvss_thresholds_witness:
  "severityFromCvss (Some 9.5) = Critical \<and>
   severityFromCvss (Some 7.0) = High \<and>
   severityFromCvss (Some 4.0) = Medium \<and>
   severityFromCvss (Some 0.1) = Low \<and>
   severityFromCvss (Some 0) = Info \<and>
   severityFromCvss None = Medium"
  using severityFromCvss_thresholds [of "9.5"] severityFromCvss_thresholds [of "7.0"]
    severityFromCvss_thresholds [of "4.0"] severityFromCvss_thresholds [of "0.1"]
    severityFromCvss_thresholds [of 0]
  by simp

subsection \<open>Merging finding lists\<close>

lemma mergeLoop_Nil: "mergeLoop [] = ([], [])"
  by (simp add: mergeLoop_def)

lemma mergeLoop_snoc: "mergeLoop (fs @ [x]) = mergeStep (mergeLoop fs) x"
  by (simp add: mergeLoop_def)

lemma mergeLoop_seen_keys: "fst (mergeLoop fs) = map findingKey (snd (mergeLoop fs))"
  by (induction fs rule: rev_induct)
    (auto simp: mergeLoop_Nil mergeLoop_snoc mergeStep_def Let_def)

lemma mergeLoop_seen_set: "set (fst (mergeLoop fs)) = findingKey ` set fs"
  by (induction fs rule: rev_induct)
    (auto simp: mergeLoop_Nil mergeLoop_snoc mergeStep_def Let_def)

lemma mergeLoop_seen_distinct: "distinct (fst (mergeLoop fs))"
  by (induction fs rule: rev_induct)
    (auto simp: mergeLoop_Nil mergeLoop_snoc mergeStep_def Let_def)

lemma mergeLoop_subseq: "subseq (snd (mergeLoop fs)) fs"
  by (induction fs rule: rev_induct)
    (auto simp: mergeLoop_Nil mergeLoop_snoc mergeStep_def Let_def subseq_append')

lemma mergeLoop_first:
  "f \<in> set (snd (mergeLoop fs)) \<Longrightarrow>
   \<exists>pre post. fs = pre @ f # post \<and> findingKey f \<notin> findingKey ` set pre"
proof (induction fs rule: rev_induct)
  case Nil
  then show ?case by (simp add: mergeLoop_Nil)
next
  case (snoc x xs)
  show ?case
  proof (cases "f \<in> set (snd (mergeLoop xs))")
    case True
    from snoc.IH [OF this] obtain pre post
      where "xs = pre @ f # post" and k: "findingKey f \<notin> findingKey ` set pre"
      by blast
    then have "xs @ [x] = pre @ f # (post @ [x])" by simp
    with k show ?thesis by blast
  next
    case False
    with snoc.prems have fx: "f = x" and nk: "findingKey x \<notin> set (fst (mergeLoop xs))"
      by (auto simp: mergeLoop_snoc mergeStep_def Let_def split: if_splits)
    from nk have "findingKey x \<notin> findingKey ` set xs"
      by (simp add: mergeLoop_seen_set)
    with fx show ?thesis
      by (intro exI [of _ xs] exI [of _ "[]"]) simp
  qed
qed

text \<open>
  What \<open>mergeFindings\<close> guarantees in terms of the joined key string: the result is a
  subsequence of the concatenated input, holds every key string of the input exactly
  once, and each retained finding is the first one carrying its key string.
\<close>

lemma mergeFindings_first_per_key_string:
  "subseq (mergeFindings ls) (concat ls) \<and>
   distinct (map findingKey (mergeFindings ls)) \<and>
   set (map findingKey (mergeFindings ls)) = findingKey ` set (concat ls) \<and>
   (\<forall>f \<in> set (mergeFindings ls).
      \<exists>pre post. concat ls = pre @ f # post \<and> findingKey f \<notin> findingKey ` set pre)"
  unfolding mergeFindings_def
  using mergeLoop_subseq [of "concat ls"] mergeLoop_seen_distinct [of "concat ls"]
    mergeLoop_seen_set [of "concat ls"] mergeLoop_first [of _ "concat ls"]
  by (simp add: mergeLoop_seen_keys)

lemma split_at_separator:
  "c \<notin> set xs \<Longrightarrow> c \<notin> set xs' \<Longrightarrow> xs @ c # ys = xs' @ c # ys' \<Longrightarrow> xs = xs' \<and> ys = ys'"
proof (induction xs arbitrary: xs')
  case Nil
  then show ?case by (cases xs') auto
next
  case (Cons x xs)
  then show ?case by (cases xs') auto
qed

text \<open>
  On findings whose \<open>reconId\<close> and \<open>source\<close> hold no colon, as those of the two parsers
  with a store id for \<open>reconId\<close>, equal key strings mean equal triples.
\<close>

lemma findingKey_injective_without_colon:
  assumes "CHR '':'' \<notin> set (reconId a) \<union> set (source a)"
    and "CHR '':'' \<notin> set (reconId b) \<union> set (source b)"
  shows "findingKey a = findingKey b \<longleftrightarrow>
    (reconId a, source a, title a) = (reconId b, source b, title b)"
proof
  assume k: "findingKey a = findingKey b"
  then have "reconId a @ CHR '':'' # (source a @ '':'' @ title a) =
      reconId b @ CHR '':'' # (source b @ '':'' @ title b)"
    by (simp add: findingKey_def)
  with assms have r: "reconId a = reconId b"
    and "source a @ CHR '':'' # title a = source b @ CHR '':'' # title b"
    using split_at_separator [of "CHR '':''" "reconId a" "reconId b"] by auto
  with assms have "source a = source b \<and> title a = title b"
    using split_at_separator [of "CHR '':''" "source a" "source b"] by auto
  with r show "(reconId a, source a, title a) = (reconId b, source b, title b)" by simp
next
  assume "(reconId a, source a, title a) = (reconId b, source b, title b)"
  then show "findingKey a = findingKey b" by (simp add: findingKey_def)
qed

text \<open>
  C6: one finding per distinct (reconId, source, title) triple. The key is the three
  fields joined by colons, so two findings whose triples differ can share a key string
  when a field itself holds a colon: the later one is then dropped although its triple
  has not been seen.
\<close>

theorem mergeFindings_key_collision:
  "(reconId (exampleFinding ''h1'' ''scan'' ''x:y''),
    source (exampleFinding ''h1'' ''scan'' ''x:y''),
    title (exampleFinding ''h1'' ''scan'' ''x:y'')) \<noteq>
   (reconId (exampleFinding ''h1'' ''scan:x'' ''y''),
    source (exampleFinding ''h1'' ''scan:x'' ''y''),
    title (exampleFinding ''h1'' ''scan:x'' ''y'')) \<and>
   mergeFindings [[exampleFinding ''h1'' ''scan'' ''x:y''], [exampleFinding ''h1'' ''scan:x'' ''y'']] =
     [exampleFinding ''h1'' ''scan'' ''x:y'']"
  by (simp add: mergeFindings_def mergeLoop_def mergeStep_def findingKey_def exampleFinding_def)

subsection \<open>Enrichment against the CVE index\<close>

lemma enrichFinding_cves: "cves (enrichFinding index f) = map (enrichEntry index) (cves f)"
  by (simp add: enrichFinding_def)

lemma enrichEntry_unindexed: "map_of index (cve_id e) = None \<Longrightarrow> enrichEntry index e = e"
  by (simp add: enrichEntry_def)

lemma enrichFinding_unindexed:
  assumes "\<forall>e \<in> set (cves f). map_of index (cve_id e) = None"
  shows "enrichFinding index f = f"
proof -
  from assms have "map (enrichEntry index) (cves f) = cves f"
    by (simp add: map_idI enrichEntry_unindexed)
  then show ?thesis by (simp add: enrichFinding_def)
qed

text \<open>What the callback does to one CVE reference, case by case.\<close>

lemma enrichEntry_cases:
  "cve_id (enrichEntry index e) = cve_id e \<and>
   (\<forall>detail b. map_of index (cve_id e) = Some detail \<and> detail_baseScore detail = Some b \<longrightarrow>
      cvss (enrichEntry index e) =
        Some \<lparr>baseScore = b,
              vector = nullish (detail_vector detail) (Option.bind (cvss e) vector),
              version = nullish (Option.bind (cvss e) version) (Some ''3.x'')\<rparr>) \<and>
   (\<forall>detail c. map_of index (cve_id e) = Some detail \<and> detail_baseScore detail = None \<and>
         cvss e = Some c \<longrightarrow>
      cvss (enrichEntry index e) =
        Some \<lparr>baseScore = baseScore c,
              vector = nullish (detail_vector detail) (vector c),
              version = nullish (version c) (Some ''3.x'')\<rparr>) \<and>
   (\<forall>detail. map_of index (cve_id e) = Some detail \<and> detail_baseScore detail = None \<and>
         cvss e = None \<longrightarrow> enrichEntry index e = e) \<and>
   (map_of index (cve_id e) = None \<longrightarrow> enrichEntry index e = e) \<and>
   (\<forall>c. cvss e = Some c \<longrightarrow>
      (\<exists>c'. cvss (enrichEntry index e) = Some c' \<and>
            (vector c \<noteq> None \<longrightarrow> vector c' \<noteq> None) \<and>
            (version c \<noteq> None \<longrightarrow> version c' = version c)))"
proof (intro conjI allI impI)
  show "cve_id (enrichEntry index e) = cve_id e"
    by (simp add: enrichEntry_def split: option.splits)
next
  fix detail b
  assume "map_of index (cve_id e) = Some detail \<and> detail_baseScore detail = Some b"
  then show "cvss (enrichEntry index e) =
        Some \<lparr>baseScore = b,
              vector = nullish (detail_vector detail) (Option.bind (cvss e) vector),
              version = nullish (Option.bind (cvss e) version) (Some ''3.x'')\<rparr>"
    by (simp add: enrichEntry_def nullish_def)
next
  fix detail c
  assume "map_of index (cve_id e) = Some detail \<and> detail_baseScore detail = None \<and> cvss e = Some c"
  then show "cvss (enrichEntry index e) =
        Some \<lparr>baseScore = baseScore c,
              vector = nullish (detail_vector detail) (vector c),
              version = nullish (version c) (Some ''3.x'')\<rparr>"
    by (simp add: enrichEntry_def nullish_def)
next
  fix detail
  assume "map_of index (cve_id e) = Some detail \<and> detail_baseScore detail = None \<and> cvss e = None"
  then show "enrichEntry index e = e"
    by (simp add: enrichEntry_def nullish_def)
next
  assume "map_of index (cve_id e) = None"
  then show "enrichEntry index e = e" by (simp add: enrichEntry_def)
next
  fix c
  assume "cvss e = Some c"
  then show "\<exists>c'. cvss (enrichEntry index e) = Some c' \<and>
            (vector c \<noteq> None \<longrightarrow> vector c' \<noteq> None) \<and>
            (version c \<noteq> None \<longrightarrow> version c' = version c)"
    by (auto simp: enrichEntry_def nullish_def split: option.splits)
qed

text \<open>
  C5, as stated, lets the index touch a reference only when the index itself supplies a
  numeric base score. The code falls back to the reference's own score
  (\<open>detail.baseScore ?? entry.cvss?.baseScore\<close>): an index entry without a score still
  writes its vector (and the default version) onto a reference that has a score.
\<close>

theorem enrich_without_index_score_counterexample:
  "map_option detail_baseScore (map_of exampleIndex ''CVE-2024-0002'') = Some None \<and>
   enrichVulnerabilitiesWithNvd
     [exampleWithCve ''CVE-2024-0002'' (Some \<lparr>baseScore = 5, vector = None, version = None\<rparr>)]
     exampleIndex =
     [exampleWithCve ''CVE-2024-0002''
        (Some \<lparr>baseScore = 5, vector = Some ''CVSS:3.1/AV:L'', version = Some ''3.x''\<rparr>)]"
  by (simp add: enrichVulnerabilitiesWithNvd_def enrichFinding_def enrichEntry_def nullish_def
      exampleWithCve_def exampleFinding_def exampleIndex_def)

text \<open>
  C5 (amended): enrichment keeps the number of findings, and for the \<open>i\<close>-th finding the
  number of its CVE references; a finding with no CVE references, and a finding none of
  whose CVE ids is in the index, is returned unchanged. For the \<open>j\<close>-th reference of the
  \<open>i\<close>-th finding the id is kept, and
  \<^item> when the index holds the id with a numeric base score, the reference ends with that
    score, with the index's vector if it has one, otherwise the reference's own, and with
    its own version if it has one, otherwise \<open>3.x\<close>;
  \<^item> when the index holds the id without a score and the reference has a CVSS block,
    the reference keeps its own score, takes the index's vector if there is one,
    otherwise keeps its own, and keeps its version if it has one, otherwise gets \<open>3.x\<close>;
  \<^item> when the index holds the id without a score and the reference has no CVSS block, or
    the id is not in the index, the reference is unchanged;
  \<^item> a populated CVSS block, vector or version is never replaced with an absent one.
\<close>

theorem enrich_backfill:
  "length (enrichVulnerabilitiesWithNvd vs index) = length vs \<and>
   (\<forall>i < length vs.
      length (cves (enrichVulnerabilitiesWithNvd vs index ! i)) = length (cves (vs ! i)) \<and>
      (cves (vs ! i) = [] \<longrightarrow> enrichVulnerabilitiesWithNvd vs index ! i = vs ! i) \<and>
      ((\<forall>e \<in> set (cves (vs ! i)). map_of index (cve_id e) = None) \<longrightarrow>
         enrichVulnerabilitiesWithNvd vs index ! i = vs ! i) \<and>
      (\<forall>j < length (cves (vs ! i)).
         cve_id (cves (enrichVulnerabilitiesWithNvd vs index ! i) ! j) = cve_id (cves (vs ! i) ! j) \<and>
         (\<forall>detail b. map_of index (cve_id (cves (vs ! i) ! j)) = Some detail \<and>
               detail_baseScore detail = Some b \<longrightarrow>
            cvss (cves (enrichVulnerabilitiesWithNvd vs index ! i) ! j) =
              Some \<lparr>baseScore = b,
                    vector = nullish (detail_vector detail) (Option.bind (cvss (cves (vs ! i) ! j)) vector),
                    version = nullish (Option.bind (cvss (cves (vs ! i) ! j)) version) (Some ''3.x'')\<rparr>) \<and>
         (\<forall>detail c. map_of index (cve_id (cves (vs ! i) ! j)) = Some detail \<and>
               detail_baseScore detail = None \<and> cvss (cves (vs ! i) ! j) = Some c \<longrightarrow>
            cvss (cves (enrichVulnerabilitiesWithNvd vs index ! i) ! j) =
              Some \<lparr>baseScore = baseScore c,
                    vector = nullish (detail_vector detail) (vector c),
                    version = nullish (version c) (Some ''3.x'')\<rparr>) \<and>
         (\<forall>detail. map_of index (cve_id (cves (vs ! i) ! j)) = Some detail \<and>
               detail_baseScore detail = None \<and> cvss (cves (vs ! i) ! j) = None \<longrightarrow>
            cves (enrichVulnerabilitiesWithNvd vs index ! i) ! j = cves (vs ! i) ! j) \<and>
         (map_of index (cve_id (cves (vs ! i) ! j)) = None \<longrightarrow>
            cves (enrichVulnerabilitiesWithNvd vs index ! i) ! j = cves (vs ! i) ! j) \<and>
         (\<forall>c. cvss (cves (vs ! i) ! j) = Some c \<longrightarrow>
            (\<exists>c'. cvss (cves (enrichVulnerabilitiesWithNvd vs index ! i) ! j) = Some c' \<and>
                  (vector c \<noteq> None \<longrightarrow> vector c' \<noteq> None) \<and>
                  (version c \<noteq> None \<longrightarrow> version c' = version c)))))"
proof (rule conjI)
  show "length (enrichVulnerabilitiesWithNvd vs index) = length vs"
    by (simp add: enrichVulnerabilitiesWithNvd_def)
next
  show "\<forall>i < length vs.
      length (cves (enrichVulnerabilitiesWithNvd vs index ! i)) = length (cves (vs ! i)) \<and>
      (cves (vs ! i) = [] \<longrightarrow> enrichVulnerabilitiesWithNvd vs index ! i = vs ! i) \<and>
      ((\<forall>e \<in> set (cves (vs ! i)). map_of index (cve_id e) = None) \<longrightarrow>
         enrichVulnerabilitiesWithNvd vs index ! i = vs ! i) \<and>
      (\<forall>j < length (cves (vs ! i)).
         cve_id (cves (enrichVulnerabilitiesWithNvd vs index ! i) ! j) = cve_id (cves (vs ! i) ! j) \<and>
         (\<forall>detail b. map_of index (cve_id (cves (vs ! i) ! j)) = Some detail \<and>
               detail_baseScore detail = Some b \<longrightarrow>
            cvss (cves (enrichVulnerabilitiesWithNvd vs index ! i) ! j) =
              Some \<lparr>baseScore = b,
                    vector = nullish (detail_vector detail) (Option.bind (cvss (cves (vs ! i) ! j)) vector),
                    version = nullish (Option.bind (cvss (cves (vs ! i) ! j)) version) (Some ''3.x'')\<rparr>) \<and>
         (\<forall>detail c. map_of index (cve_id (cves (vs ! i) ! j)) = Some detail \<and>
               detail_baseScore detail = None \<and> cvss (cves (vs ! i) ! j) = Some c \<longrightarrow>
            cvss (cves (enrichVulnerabilitiesWithNvd vs index ! i) ! j) =
              Some \<lparr>baseScore = baseScore c,
                    vector = nullish (detail_vector detail) (vector c),
                    version = nullish (version c) (Some ''3.x'')\<rparr>) \<and>
         (\<forall>detail. map_of index (cve_id (cves (vs ! i) ! j)) = Some detail \<and>
               detail_baseScore detail = None \<and> cvss (cves (vs ! i) ! j) = None \<longrightarrow>
            cves (enrichVulnerabilitiesWithNvd vs index ! i) ! j = cves (vs ! i) ! j) \<and>
         (map_of index (cve_id (cves (vs ! i) ! j)) = None \<longrightarrow>
            cves (enrichVulnerabilitiesWithNvd vs index ! i) ! j = cves (vs ! i) ! j) \<and>
         (\<forall>c. cvss (cves (vs ! i) ! j) = Some c \<longrightarrow>
            (\<exists>c'. cvss (cves (enrichVulnerabilitiesWithNvd vs index ! i) ! j) = Some c' \<and>
                  (vector c \<noteq> None \<longrightarrow> vector c' \<noteq> None) \<and>
                  (version c \<noteq> None \<longrightarrow> version c' = version c))))"
  proof (intro allI impI)
    fix i
    assume i: "i < length vs"
    then have E: "enrichVulnerabilitiesWithNvd vs index ! i = enrichFinding index (vs ! i)"
      by (simp add: enrichVulnerabilitiesWithNvd_def)
    have 1: "length (cves (enrichVulnerabilitiesWithNvd vs index ! i)) = length (cves (vs ! i))"
      by (simp add: E enrichFinding_cves)
    have 2: "cves (vs ! i) = [] \<longrightarrow> enrichVulnerabilitiesWithNvd vs index ! i = vs ! i"
      by (simp add: E enrichFinding_def)
    have 3: "(\<forall>e \<in> set (cves (vs ! i)). map_of index (cve_id e) = None) \<longrightarrow>
        enrichVulnerabilitiesWithNvd vs index ! i = vs ! i"
      unfolding E using enrichFinding_unindexed by blast
    have 4: "\<forall>j < length (cves (vs ! i)).
         cve_id (cves (enrichVulnerabilitiesWithNvd vs index ! i) ! j) = cve_id (cves (vs ! i) ! j) \<and>
         (\<forall>detail b. map_of index (cve_id (cves (vs ! i) ! j)) = Some detail \<and>
               detail_baseScore detail = Some b \<longrightarrow>
            cvss (cves (enrichVulnerabilitiesWithNvd vs index ! i) ! j) =
              Some \<lparr>baseScore = b,
                    vector = nullish (detail_vector detail) (Option.bind (cvss (cves (vs ! i) ! j)) vector),
                    version = nullish (Option.bind (cvss (cves (vs ! i) ! j)) version) (Some ''3.x'')\<rparr>) \<and>
         (\<forall>detail c. map_of index (cve_id (cves (vs ! i) ! j)) = Some detail \<and>
               detail_baseScore detail = None \<and> cvss (cves (vs ! i) ! j) = Some c \<longrightarrow>
            cvss (cves (enrichVulnerabilitiesWithNvd vs index ! i) ! j) =
              Some \<lparr>baseScore = baseScore c,
                    vector = nullish (detail_vector detail) (vector c),
                    version = nullish (version c) (Some ''3.x'')\<rparr>) \<and>
         (\<forall>detail. map_of index (cve_id (cves (vs ! i) ! j)) = Some detail \<and>
               detail_baseScore detail = None \<and> cvss (cves (vs ! i) ! j) = None \<longrightarrow>
            cves (enrichVulnerabilitiesWithNvd vs index ! i) ! j = cves (vs ! i) ! j) \<and>
         (map_of index (cve_id (cves (vs ! i) ! j)) = None \<longrightarrow>
            cves (enrichVulnerabilitiesWithNvd vs index ! i) ! j = cves (vs ! i) ! j) \<and>
         (\<forall>c. cvss (cves (vs ! i) ! j) = Some c \<longrightarrow>
            (\<exists>c'. cvss (cves (enrichVulnerabilitiesWithNvd vs index ! i) ! j) = Some c' \<and>
                  (vector c \<noteq> None \<longrightarrow> vector c' \<noteq> None) \<and>
                  (version c \<noteq> None \<longrightarrow> version c' = version c)))"
    proof (intro allI impI)
      fix j
      assume j: "j < length (cves (vs ! i))"
      then have C: "cves (enrichVulnerabilitiesWithNvd vs index ! i) ! j =
          enrichEntry index (cves (vs ! i) ! j)"
        by (simp add: E enrichFinding_cves)
      show "cve_id (cves (enrichVulnerabilitiesWithNvd vs index ! i) ! j) = cve_id (cves (vs ! i) ! j) \<and>
         (\<forall>detail b. map_of index (cve_id (cves (vs ! i) ! j)) = Some detail \<and>
               detail_baseScore detail = Some b \<longrightarrow>
            cvss (cves (enrichVulnerabilitiesWithNvd vs index ! i) ! j) =
              Some \<lparr>baseScore = b,
                    vector = nullish (detail_vector detail) (Option.bind (cvss (cves (vs ! i) ! j)) vector),
                    version = nullish (Option.bind (cvss (cves (vs ! i) ! j)) version) (Some ''3.x'')\<rparr>) \<and>
         (\<forall>detail c. map_of index (cve_id (cves (vs ! i) ! j)) = Some detail \<and>
               detail_baseScore detail = None \<and> cvss (cves (vs ! i) ! j) = Some c \<longrightarrow>
            cvss (cves (enrichVulnerabilitiesWithNvd vs index ! i) ! j) =
              Some \<lparr>baseScore = baseScore c,
                    vector = nullish (detail_vector detail) (vector c),
                    version = nullish (version c) (Some ''3.x'')\<rparr>) \<and>
         (\<forall>detail. map_of index (cve_id (cves (vs ! i) ! j)) = Some detail \<and>
               detail_baseScore detail = None \<and> cvss (cves (vs ! i) ! j) = None \<longrightarrow>
            cves (enrichVulnerabilitiesWithNvd vs index ! i) ! j = cves (vs ! i) ! j) \<and>
         (map_of index (cve_id (cves (vs ! i) ! j)) = None \<longrightarrow>
            cves (enrichVulnerabilitiesWithNvd vs index ! i) ! j = cves (vs ! i) ! j) \<and>
         (\<forall>c. cvss (cves (vs ! i) ! j) = Some c \<longrightarrow>
            (\<exists>c'. cvss (cves (enrichVulnerabilitiesWithNvd vs index ! i) ! j) = Some c' \<and>
                  (vector c \<noteq> None \<longrightarrow> vector c' \<noteq> None) \<and>
                  (version c \<noteq> None \<longrightarrow> version c' = version c)))"
        unfolding C by (rule enrichEntry_cases)
    qed
    from 1 2 3 4 show "length (cves (enrichVulnerabilitiesWithNvd vs index ! i)) = length (cves (vs ! i)) \<and>
      (cves (vs ! i) = [] \<longrightarrow> enrichVulnerabilitiesWithNvd vs index ! i = vs ! i) \<and>
      ((\<forall>e \<in> set (cves (vs ! i)). map_of index (cve_id e) = None) \<longrightarrow>
         enrichVulnerabilitiesWithNvd vs index ! i = vs ! i) \<and>
      (\<forall>j < length (cves (vs ! i)).
         cve_id (cves (enrichVulnerabilitiesWithNvd vs index ! i) ! j) = cve_id (cves (vs ! i) ! j) \<and>
         (\<forall>detail b. map_of index (cve_id (cves (vs ! i) ! j)) = Some detail \<and>
               detail_baseScore detail = Some b \<longrightarrow>
            cvss (cves (enrichVulnerabilitiesWithNvd vs index ! i) ! j) =
              Some \<lparr>baseScore = b,
                    vector = nullish (detail_vector detail) (Option.bind (cvss (cves (vs ! i) ! j)) vector),
                    version = nullish (Option.bind (cvss (cves (vs ! i) ! j)) version) (Some ''3.x'')\<rparr>) \<and>
         (\<forall>detail c. map_of index (cve_id (cves (vs ! i) ! j)) = Some detail \<and>
               detail_baseScore detail = None \<and> cvss (cves (vs ! i) ! j) = Some c \<longrightarrow>
            cvss (cves (enrichVulnerabilitiesWithNvd vs index ! i) ! j) =
              Some \<lparr>baseScore = baseScore c,
                    vector = nullish (detail_vector detail) (vector c),
                    version = nullish (version c) (Some ''3.x'')\<rparr>) \<and>
         (\<forall>detail. map_of index (cve_id (cves (vs ! i) ! j)) = Some detail \<and>
               detail_baseScore detail = None \<and> cvss (cves (vs ! i) ! j) = None \<longrightarrow>
            cves (enrichVulnerabilitiesWithNvd vs index ! i) ! j = cves (vs ! i) ! j) \<and>
         (map_of index (cve_id (cves (vs ! i) ! j)) = None \<longrightarrow>
            cves (enrichVulnerabilitiesWithNvd vs index ! i) ! j = cves (vs ! i) ! j) \<and>
         (\<forall>c. cvss (cves (vs ! i) ! j) = Some c \<longrightarrow>
            (\<exists>c'. cvss (cves (enrichVulnerabilitiesWithNvd vs index ! i) ! j) = Some c' \<and>
                  (vector c \<noteq> None \<longrightarrow> vector c' \<noteq> None) \<and>
                  (version c \<noteq> None \<longrightarrow> version c' = version c))))"
      by (intro conjI)
  qed
qed


theorem enrich_backfill_witness:
  "map_option detail_baseScore (map_of exampleIndex ''CVE-2024-0001'') = Some (Some 9.8) \<and>
   cvss (cves (enrichVulnerabilitiesWithNvd [exampleWithCve ''CVE-2024-0001'' None] exampleIndex ! 0) ! 0) =
     Some \<lparr>baseScore = 9.8, vector = Some ''CVSS:3.1/AV:N'', version = Some ''3.x''\<rparr> \<and>
   map_option detail_baseScore (map_of exampleIndex ''CVE-2024-0002'') = Some None \<and>
   cvss (cves (enrichVulnerabilitiesWithNvd
       [exampleWithCve ''CVE-2024-0002'' (Some \<lparr>baseScore = 5, vector = None, version = None\<rparr>)]
       exampleIndex ! 0) ! 0) =
     Some \<lparr>baseScore = 5, vector = Some ''CVSS:3.1/AV:L'', version = Some ''3.x''\<rparr> \<and>
   cves (enrichVulnerabilitiesWithNvd [exampleWithCve ''CVE-2024-0002'' None] exampleIndex ! 0) ! 0 =
     \<lparr>cve_id = ''CVE-2024-0002'', cvss = None\<rparr> \<and>
   map_of exampleIndex ''CVE-2024-0003'' = None \<and>
   enrichVulnerabilitiesWithNvd
     [exampleWithCve ''CVE-2024-0003'' (Some \<lparr>baseScore = 5, vector = None, version = None\<rparr>)]
     exampleIndex ! 0 =
     exampleWithCve ''CVE-2024-0003'' (Some \<lparr>baseScore = 5, vector = None, version = None\<rparr>) \<and>
   cves (exampleFinding ''recon-1'' ''nuclei'' ''Exposed Panel'') = [] \<and>
   enrichVulnerabilitiesWithNvd [exampleFinding ''recon-1'' ''nuclei'' ''Exposed Panel''] exampleIndex ! 0 =
     exampleFinding ''recon-1'' ''nuclei'' ''Exposed Panel''"
proof -
  let ?dA = "\<lparr>detail_id = ''CVE-2024-0001'', detail_baseScore = Some 9.8,
        detail_vector = Some ''CVSS:3.1/AV:N'', cpes = []\<rparr>"
  let ?dB = "\<lparr>detail_id = ''CVE-2024-0002'', detail_baseScore = None,
        detail_vector = Some ''CVSS:3.1/AV:L'', cpes = []\<rparr>"
  let ?c5 = "\<lparr>baseScore = 5, vector = None, version = None\<rparr>"
  have h1: "(0::nat) < length [f]" for f :: Vulnerability by simp
  have cv: "cves (exampleWithCve i c) = [\<lparr>cve_id = i, cvss = c\<rparr>]" for i c
    by (simp add: exampleWithCve_def)
  have h2: "(0::nat) < length (cves ([exampleWithCve i c] ! 0))" for i c
    by (simp add: cv)
  have mA: "map_of exampleIndex ''CVE-2024-0001'' = Some ?dA"
    by (simp add: exampleIndex_def)
  have mB: "map_of exampleIndex ''CVE-2024-0002'' = Some ?dB"
    by (simp add: exampleIndex_def)
  have mD: "map_of exampleIndex ''CVE-2024-0003'' = None"
    by (simp add: exampleIndex_def)
  note F = enrich_backfill [THEN conjunct2, rule_format, OF h1]
  note R = F [THEN conjunct2, THEN conjunct2, THEN conjunct2, rule_format, OF h2]
  have a: "cvss (cves (enrichVulnerabilitiesWithNvd [exampleWithCve ''CVE-2024-0001'' None] exampleIndex ! 0) ! 0) =
     Some \<lparr>baseScore = 9.8, vector = Some ''CVSS:3.1/AV:N'', version = Some ''3.x''\<rparr>"
  proof -
    have "map_of exampleIndex (cve_id (cves ([exampleWithCve ''CVE-2024-0001'' None] ! 0) ! 0)) = Some ?dA \<and>
        detail_baseScore ?dA = Some 9.8"
      by (simp add: cv mA)
    from R [of "''CVE-2024-0001''" None exampleIndex, THEN conjunct2, THEN conjunct1, rule_format, OF this]
    show ?thesis by (simp add: cv nullish_def)
  qed
  have b: "cvss (cves (enrichVulnerabilitiesWithNvd [exampleWithCve ''CVE-2024-0002'' (Some ?c5)]
       exampleIndex ! 0) ! 0) =
     Some \<lparr>baseScore = 5, vector = Some ''CVSS:3.1/AV:L'', version = Some ''3.x''\<rparr>"
  proof -
    have "map_of exampleIndex (cve_id (cves ([exampleWithCve ''CVE-2024-0002'' (Some ?c5)] ! 0) ! 0)) = Some ?dB \<and>
        detail_baseScore ?dB = None \<and>
        cvss (cves ([exampleWithCve ''CVE-2024-0002'' (Some ?c5)] ! 0) ! 0) = Some ?c5"
      by (simp add: cv mB)
    from R [of "''CVE-2024-0002''" "Some ?c5" exampleIndex, THEN conjunct2, THEN conjunct2, THEN conjunct1,
        rule_format, OF this]
    show ?thesis by (simp add: nullish_def)
  qed
  have c: "cves (enrichVulnerabilitiesWithNvd [exampleWithCve ''CVE-2024-0002'' None] exampleIndex ! 0) ! 0 =
     \<lparr>cve_id = ''CVE-2024-0002'', cvss = None\<rparr>"
  proof -
    have "map_of exampleIndex (cve_id (cves ([exampleWithCve ''CVE-2024-0002'' None] ! 0) ! 0)) = Some ?dB \<and>
        detail_baseScore ?dB = None \<and> cvss (cves ([exampleWithCve ''CVE-2024-0002'' None] ! 0) ! 0) = None"
      by (simp add: cv mB)
    from R [of "''CVE-2024-0002''" None exampleIndex, THEN conjunct2, THEN conjunct2, THEN conjunct2,
        THEN conjunct1, rule_format, OF this]
    show ?thesis by (simp add: cv)
  qed
  have d: "enrichVulnerabilitiesWithNvd [exampleWithCve ''CVE-2024-0003'' (Some ?c5)] exampleIndex ! 0 =
     exampleWithCve ''CVE-2024-0003'' (Some ?c5)"
  proof -
    have "\<forall>e \<in> set (cves ([exampleWithCve ''CVE-2024-0003'' (Some ?c5)] ! 0)).
        map_of exampleIndex (cve_id e) = None"
      by (simp add: cv mD)
    from F [of "exampleWithCve ''CVE-2024-0003'' (Some ?c5)" exampleIndex, THEN conjunct2, THEN conjunct2,
        THEN conjunct1, THEN mp, OF this]
    show ?thesis by simp
  qed
  have n: "cves (exampleFinding ''recon-1'' ''nuclei'' ''Exposed Panel'') = []"
    by (simp add: exampleFinding_def)
  have e: "enrichVulnerabilitiesWithNvd [exampleFinding ''recon-1'' ''nuclei'' ''Exposed Panel''] exampleIndex ! 0 =
     exampleFinding ''recon-1'' ''nuclei'' ''Exposed Panel''"
  proof -
    have "cves ([exampleFinding ''recon-1'' ''nuclei'' ''Exposed Panel''] ! 0) = []"
      by (simp add: n)
    from F [of "exampleFinding ''recon-1'' ''nuclei'' ''Exposed Panel''" exampleIndex, THEN conjunct2,
        THEN conjunct1, rule_format, OF this]
    show ?thesis by simp
  qed
  from a b c d e n mD show ?thesis by (simp add: mA mB)
qed

text \<open>
  C10: enrichment returns as many findings as it was given, in the same order, and each
  returned finding equals the input finding except possibly in \<open>cves\<close>: reconId, source,
  title, severity, confidence, status, description, evidence, category and the remaining
  metadata are those of the input.
\<close>

theorem enrich_frame:
  "length (enrichVulnerabilitiesWithNvd vs index) = length vs \<and>
   list_all2 (\<lambda>f g. g = f\<lparr>cves := cves g\<rparr>) vs (enrichVulnerabilitiesWithNvd vs index) \<and>
   map reconId (enrichVulnerabilitiesWithNvd vs index) = map reconId vs \<and>
   map source (enrichVulnerabilitiesWithNvd vs index) = map source vs \<and>
   map title (enrichVulnerabilitiesWithNvd vs index) = map title vs \<and>
   map severity (enrichVulnerabilitiesWithNvd vs index) = map severity vs \<and>
   map confidence (enrichVulnerabilitiesWithNvd vs index) = map confidence vs \<and>
   map status (enrichVulnerabilitiesWithNvd vs index) = map status vs \<and>
   map description (enrichVulnerabilitiesWithNvd vs index) = map description vs \<and>
   map evidence (enrichVulnerabilitiesWithNvd vs index) = map evidence vs \<and>
   map category (enrichVulnerabilitiesWithNvd vs index) = map category vs \<and>
   map (\<lambda>f. (scannerFindingId f, remediation f, reportedAt f, resolvedAt f, tags f, createdAt f, updatedAt f))
     (enrichVulnerabilitiesWithNvd vs index) =
   map (\<lambda>f. (scannerFindingId f, remediation f, reportedAt f, resolvedAt f, tags f, createdAt f, updatedAt f)) vs"
proof -
  have fr: "\<And>f. enrichFinding index f = f\<lparr>cves := cves (enrichFinding index f)\<rparr>"
    by (simp add: enrichFinding_def)
  have "list_all2 (\<lambda>f g. g = f\<lparr>cves := cves g\<rparr>) vs (map (enrichFinding index) vs)"
    using fr by (simp add: list_all2_map2 list_all2_same)
  moreover have "\<And>f. reconId (enrichFinding index f) = reconId f" "\<And>f. source (enrichFinding index f) = source f"
     "\<And>f. title (enrichFinding index f) = title f" "\<And>f. severity (enrichFinding index f) = severity f"
     "\<And>f. confidence (enrichFinding index f) = confidence f" "\<And>f. status (enrichFinding index f) = status f"
     "\<And>f. description (enrichFinding index f) = description f" "\<And>f. evidence (enrichFinding index f) = evidence f"
     "\<And>f. category (enrichFinding index f) = category f"
     "\<And>f. scannerFindingId (enrichFinding index f) = scannerFindingId f"
     "\<And>f. remediation (enrichFinding index f) = remediation f"
     "\<And>f. reportedAt (enrichFinding index f) = reportedAt f"
     "\<And>f. resolvedAt (enrichFinding index f) = resolvedAt f"
     "\<And>f. tags (enrichFinding index f) = tags f"
     "\<And>f. createdAt (enrichFinding index f) = createdAt f"
     "\<And>f. updatedAt (enrichFinding index f) = updatedAt f"
    by (simp_all add: enrichFinding_def)
  ultimately show ?thesis
    by (simp add: enrichVulnerabilitiesWithNvd_def)
qed

subsection \<open>Suggesting CVEs for technology fingerprints\<close>











subsection \<open>Confidence assigned by the parsers\<close>

lemma nucleiFinding_confidence_cves:
  "(confidence (nucleiFinding lower now r j f), map cve_id (cves (nucleiFinding lower now r j f))) =
   (case info_cve (info f) of
      None \<Rightarrow> (NeedsReview, [])
    | Some c \<Rightarrow> if c \<noteq> [] then (Confirmed, [c]) else (NeedsReview, []))"
  by (simp add: nucleiFinding_def baseVulnerability_def Let_def truthy_def split: option.splits)

lemma nmapFinding_confidence_cves:
  "(confidence (nmapFinding n now r j h p e), map cve_id (cves (nmapFinding n now r j h p e))) =
   (Suspected, [vulner_id e])"
  by (simp add: nmapFinding_def baseVulnerability_def Let_def)

lemma nmapPortStep_map:
  "map (\<lambda>f. (confidence f, map cve_id (cves f))) (nmapPortStep n clock r j h acc p) =
   map (\<lambda>f. (confidence f, map cve_id (cves f))) acc @
   map (\<lambda>e. (Suspected, [vulner_id e])) (case port_vulners p of None \<Rightarrow> [] | Some vs \<Rightarrow> vs)"
proof -
  have "map (\<lambda>f. (confidence f, map cve_id (cves f)))
      (foldl (\<lambda>res entry. res @ [nmapFinding n (clock (length res)) r j h p entry]) a es) =
    map (\<lambda>f. (confidence f, map cve_id (cves f))) a @ map (\<lambda>e. (Suspected, [vulner_id e])) es"
    for es a
    by (induction es arbitrary: a) (simp_all add: nmapFinding_confidence_cves)
  then show ?thesis by (simp add: nmapPortStep_def)
qed

lemma nmapPorts_map:
  "map (\<lambda>f. (confidence f, map cve_id (cves f))) (foldl (nmapPortStep n clock r j h) acc ps) =
   map (\<lambda>f. (confidence f, map cve_id (cves f))) acc @
   concat (map (\<lambda>p. map (\<lambda>e. (Suspected, [vulner_id e]))
                      (case port_vulners p of None \<Rightarrow> [] | Some vs \<Rightarrow> vs)) ps)"
  by (induction ps arbitrary: acc) (simp_all add: nmapPortStep_map)

lemma naturalToString_22: "naturalToString 22 = ''22''"
  unfolding naturalToString_def by (simp del: decimal.simps) code_simp

text \<open>
  C7, as stated, makes the confidence \<open>confirmed\<close> exactly when the source reports an
  explicit CVE identifier with the finding. The nmap parser attaches the reported
  identifier to every finding as its CVE reference and still sets \<open>suspected\<close>.
\<close>

theorem confidence_nmap_counterexample:
  "map (\<lambda>f. (title f, confidence f, map cve_id (cves f)))
     (parseNmapVulnerabilities naturalToString exampleClock
        \<lparr>opt_reconId = ''recon-1'', opt_jobId = ''job-1'', opt_raw = Some exampleNmap\<rparr>) =
   [(''CVE-2021-41617 on port 22'', Suspected, [''CVE-2021-41617''])]"
  by (simp add: parseNmapVulnerabilities_def nmapPortStep_def nmapFinding_def baseVulnerability_def
      exampleNmap_def naturalToString_22 Let_def)

text \<open>
  C7 (amended): \<open>parseNucleiResults\<close> returns one finding per record of the payload, in
  order, and none when the payload is rejected. A record with a non-empty CVE identifier
  gives a \<open>confirmed\<close> finding whose one CVE reference carries that identifier; a record
  without one gives a \<open>needs-review\<close> finding with no CVE reference; so a finding is
  \<open>confirmed\<close> exactly when it has a CVE reference. \<open>parseNmapVulnerabilities\<close> returns
  one finding per reported vulnerability, port by port in order, and none when the
  payload is rejected; each is \<open>suspected\<close> and carries the reported vulnerability
  identifier as its one CVE reference.
\<close>

theorem parser_confidence:
  "(opt_raw nucleiOptions = None \<longrightarrow> parseNucleiResults toLowerCase clock nucleiOptions = []) \<and>
   (\<forall>data. opt_raw nucleiOptions = Some data \<longrightarrow>
      length (parseNucleiResults toLowerCase clock nucleiOptions) = length data \<and>
      (\<forall>k < length data.
         (confidence (parseNucleiResults toLowerCase clock nucleiOptions ! k),
          map cve_id (cves (parseNucleiResults toLowerCase clock nucleiOptions ! k))) =
           (case info_cve (info (data ! k)) of
              None \<Rightarrow> (NeedsReview, [])
            | Some c \<Rightarrow> if c \<noteq> [] then (Confirmed, [c]) else (NeedsReview, [])) \<and>
         (confidence (parseNucleiResults toLowerCase clock nucleiOptions ! k) = Confirmed \<longleftrightarrow>
            cves (parseNucleiResults toLowerCase clock nucleiOptions ! k) \<noteq> []))) \<and>
   (opt_raw nmapOptions = None \<longrightarrow>
      parseNmapVulnerabilities numberToString clock' nmapOptions = []) \<and>
   (\<forall>host. opt_raw nmapOptions = Some host \<longrightarrow>
      map (\<lambda>f. (confidence f, map cve_id (cves f)))
        (parseNmapVulnerabilities numberToString clock' nmapOptions) =
      concat (map (\<lambda>p. map (\<lambda>e. (Suspected, [vulner_id e]))
                         (case port_vulners p of None \<Rightarrow> [] | Some vs \<Rightarrow> vs))
                (nmap_ports host)))"
proof -
  have 1: "opt_raw nucleiOptions = None \<longrightarrow> parseNucleiResults toLowerCase clock nucleiOptions = []"
    by (simp add: parseNucleiResults_def)
  have 2: "\<forall>data. opt_raw nucleiOptions = Some data \<longrightarrow>
      length (parseNucleiResults toLowerCase clock nucleiOptions) = length data \<and>
      (\<forall>k < length data.
         (confidence (parseNucleiResults toLowerCase clock nucleiOptions ! k),
          map cve_id (cves (parseNucleiResults toLowerCase clock nucleiOptions ! k))) =
           (case info_cve (info (data ! k)) of
              None \<Rightarrow> (NeedsReview, [])
            | Some c \<Rightarrow> if c \<noteq> [] then (Confirmed, [c]) else (NeedsReview, [])) \<and>
         (confidence (parseNucleiResults toLowerCase clock nucleiOptions ! k) = Confirmed \<longleftrightarrow>
            cves (parseNucleiResults toLowerCase clock nucleiOptions ! k) \<noteq> []))"
  proof (intro allI impI)
    fix data
    assume d: "opt_raw nucleiOptions = Some data"
    then have len: "length (parseNucleiResults toLowerCase clock nucleiOptions) = length data"
      by (simp add: parseNucleiResults_def)
    have each: "(confidence (parseNucleiResults toLowerCase clock nucleiOptions ! k),
          map cve_id (cves (parseNucleiResults toLowerCase clock nucleiOptions ! k))) =
           (case info_cve (info (data ! k)) of
              None \<Rightarrow> (NeedsReview, [])
            | Some c \<Rightarrow> if c \<noteq> [] then (Confirmed, [c]) else (NeedsReview, [])) \<and>
         (confidence (parseNucleiResults toLowerCase clock nucleiOptions ! k) = Confirmed \<longleftrightarrow>
            cves (parseNucleiResults toLowerCase clock nucleiOptions ! k) \<noteq> [])"
      if k: "k < length data" for k
    proof -
      from d k have nth: "parseNucleiResults toLowerCase clock nucleiOptions ! k =
          nucleiFinding toLowerCase (clock k) (opt_reconId nucleiOptions) (opt_jobId nucleiOptions)
            (data ! k)"
        by (simp add: parseNucleiResults_def)
      have a: "(confidence (nucleiFinding lower now r j f) = Confirmed) \<longleftrightarrow>
          cves (nucleiFinding lower now r j f) \<noteq> []" for lower now r j f
        using nucleiFinding_confidence_cves [of lower now r j f]
        by (auto split: option.splits if_splits)
      show ?thesis unfolding nth by (rule conjI) (rule nucleiFinding_confidence_cves, rule a)
    qed
    from len each
    show "length (parseNucleiResults toLowerCase clock nucleiOptions) = length data \<and>
      (\<forall>k < length data.
         (confidence (parseNucleiResults toLowerCase clock nucleiOptions ! k),
          map cve_id (cves (parseNucleiResults toLowerCase clock nucleiOptions ! k))) =
           (case info_cve (info (data ! k)) of
              None \<Rightarrow> (NeedsReview, [])
            | Some c \<Rightarrow> if c \<noteq> [] then (Confirmed, [c]) else (NeedsReview, [])) \<and>
         (confidence (parseNucleiResults toLowerCase clock nucleiOptions ! k) = Confirmed \<longleftrightarrow>
            cves (parseNucleiResults toLowerCase clock nucleiOptions ! k) \<noteq> []))"
      by blast
  qed
  have 3: "opt_raw nmapOptions = None \<longrightarrow>
      parseNmapVulnerabilities numberToString clock' nmapOptions = []"
    by (simp add: parseNmapVulnerabilities_def)
  have 4: "\<forall>host. opt_raw nmapOptions = Some host \<longrightarrow>
      map (\<lambda>f. (confidence f, map cve_id (cves f)))
        (parseNmapVulnerabilities numberToString clock' nmapOptions) =
      concat (map (\<lambda>p. map (\<lambda>e. (Suspected, [vulner_id e]))
                         (case port_vulners p of None \<Rightarrow> [] | Some vs \<Rightarrow> vs))
                (nmap_ports host))"
    by (simp add: parseNmapVulnerabilities_def nmapPorts_map)
  from 1 2 3 4 show ?thesis by (intro conjI)
qed

theorem parser_confidence_witness:
  "opt_raw \<lparr>opt_reconId = ''recon-1'', opt_jobId = ''job-1'', opt_raw = Some exampleNuclei\<rparr> =
     Some exampleNuclei \<and>
   length exampleNuclei = 2 \<and>
   map (\<lambda>f. (confidence f, map cve_id (cves f)))
     (parseNucleiResults asciiLower exampleClock
        \<lparr>opt_reconId = ''recon-1'', opt_jobId = ''job-1'', opt_raw = Some exampleNuclei\<rparr>) =
     [(Confirmed, [''CVE-2024-0001'']), (NeedsReview, [])] \<and>
   parseNucleiResults asciiLower exampleClock
     \<lparr>opt_reconId = ''recon-1'', opt_jobId = ''job-1'', opt_raw = None\<rparr> = [] \<and>
   opt_raw \<lparr>opt_reconId = ''recon-1'', opt_jobId = ''job-1'', opt_raw = Some exampleNmap\<rparr> =
     Some exampleNmap \<and>
   map (\<lambda>f. (confidence f, map cve_id (cves f)))
     (parseNmapVulnerabilities naturalToString exampleClock
        \<lparr>opt_reconId = ''recon-1'', opt_jobId = ''job-1'', opt_raw = Some exampleNmap\<rparr>) =
     [(Suspected, [''CVE-2021-41617''])] \<and>
   parseNmapVulnerabilities naturalToString exampleClock
     \<lparr>opt_reconId = ''recon-1'', opt_jobId = ''job-1'', opt_raw = None\<rparr> = []"
proof -
  let ?no = "\<lparr>opt_reconId = ''recon-1'', opt_jobId = ''job-1'', opt_raw = Some exampleNuclei\<rparr>"
  let ?mo = "\<lparr>opt_reconId = ''recon-1'', opt_jobId = ''job-1'', opt_raw = Some exampleNmap\<rparr>"
  let ?ne = "\<lparr>opt_reconId = ''recon-1'', opt_jobId = ''job-1'',
              opt_raw = None :: NucleiFinding list option\<rparr>"
  let ?me = "\<lparr>opt_reconId = ''recon-1'', opt_jobId = ''job-1'', opt_raw = None :: NmapHost option\<rparr>"
  note T = parser_confidence [of ?no asciiLower exampleClock ?mo naturalToString exampleClock]
  note U = parser_confidence [of ?ne asciiLower exampleClock ?me naturalToString exampleClock]
  have raw: "opt_raw ?no = Some exampleNuclei" by simp
  have raw': "opt_raw ?mo = Some exampleNmap" by simp
  have len: "length exampleNuclei = 2" by (simp add: exampleNuclei_def)
  note N = T [THEN conjunct2, THEN conjunct1, rule_format, OF raw]
  have L: "length (parseNucleiResults asciiLower exampleClock ?no) = 2"
    using N [THEN conjunct1] by (simp add: len)
  have k0: "(0::nat) < length exampleNuclei" and k1: "(1::nat) < length exampleNuclei"
    by (simp_all add: len)
  have c0: "(confidence (parseNucleiResults asciiLower exampleClock ?no ! 0),
       map cve_id (cves (parseNucleiResults asciiLower exampleClock ?no ! 0))) =
      (Confirmed, [''CVE-2024-0001''])"
    using N [THEN conjunct2, rule_format, OF k0, THEN conjunct1] by (simp add: exampleNuclei_def)
  have c1: "(confidence (parseNucleiResults asciiLower exampleClock ?no ! 1),
       map cve_id (cves (parseNucleiResults asciiLower exampleClock ?no ! 1))) =
      (NeedsReview, [])"
    using N [THEN conjunct2, rule_format, OF k1, THEN conjunct1] by (simp add: exampleNuclei_def)
  have n: "map (\<lambda>f. (confidence f, map cve_id (cves f)))
      (parseNucleiResults asciiLower exampleClock ?no) =
      [(Confirmed, [''CVE-2024-0001'']), (NeedsReview, [])]"
  proof -
    from L obtain a b where ab: "parseNucleiResults asciiLower exampleClock ?no = [a, b]"
      by (auto simp: length_Suc_conv numeral_2_eq_2)
    from c0 c1 show ?thesis unfolding ab by simp
  qed
  have ne: "parseNucleiResults asciiLower exampleClock ?ne = []"
    using U [THEN conjunct1] by simp
  have m: "map (\<lambda>f. (confidence f, map cve_id (cves f)))
      (parseNmapVulnerabilities naturalToString exampleClock ?mo) =
      [(Suspected, [''CVE-2021-41617''])]"
    using T [THEN conjunct2, THEN conjunct2, THEN conjunct2, rule_format, OF raw']
    by (simp add: exampleNmap_def)
  have me: "parseNmapVulnerabilities naturalToString exampleClock ?me = []"
    using U [THEN conjunct2, THEN conjunct2, THEN conjunct1] by simp
  from raw len n ne raw' m me show ?thesis by (intro conjI)
qed

subsection \<open>The worker pool\<close>

lemma sum_list_map_update:
  fixes f :: "'b \<Rightarrow> nat"
  shows "i < length xs \<Longrightarrow> sum_list (map f (xs[i := y])) + f (xs ! i) = sum_list (map f xs) + f y"
proof (induction xs arbitrary: i)
  case Nil
  then show ?case by simp
next
  case (Cons x xs)
  then show ?case by (cases i) (simp_all add: add.assoc add.left_commute)
qed

lemma pendingWeight_update:
  assumes "i < length (workers s)"
  shows "pendingWeight g (s\<lparr>workers := (workers s)[i := w]\<rparr>) +
           (if isSettled (snd (workers s ! i)) then 0 else g (fst (workers s ! i))) =
         pendingWeight g s + (if isSettled (snd w) then 0 else g (fst w))"
  unfolding pendingWeight_def using sum_list_map_update [OF assms, of "\<lambda>w. if isSettled (snd w) then 0 else g (fst w)" w]
  by simp

lemma pendingWeight_fields [simp]:
  "pendingWeight g (s\<lparr>completed := c\<rparr>) = pendingWeight g s"
  "pendingWeight g (s\<lparr>successful := t\<rparr>) = pendingWeight g s"
  "pendingWeight g (s\<lparr>currentIndex := k\<rparr>) = pendingWeight g s"
  by (simp_all add: pendingWeight_def)

lemma poolInvariant_start: "poolInvariant items operation maxConcurrent (startPool items maxConcurrent)"
proof -
  have "sum_list (map (\<lambda>w. if isSettled (snd w) then 0 else g (fst w)) (map (\<lambda>x. (x, Delayed)) xs)) =
      sum_list (map g xs)" for g :: "'a \<Rightarrow> nat" and xs
    by (induction xs) (simp_all add: isSettled_def)
  note h = this
  have one: "sum_list (map (\<lambda>x. Suc 0) xs) = length xs" for xs :: "'a list"
    by (induction xs) simp_all
  show ?thesis
    using h [of "\<lambda>x. Suc 0"] h [of "resultOf operation"]
    by (simp add: poolInvariant_def startPool_def pendingWeight_def one)
qed

lemma poolInvariant_fire:
  assumes inv: "poolInvariant items operation maxConcurrent s"
    and f: "fire items operation ev s = Some s'"
  shows "poolInvariant items operation maxConcurrent s'"
proof (cases ev)
  case (TimerFires i)
  with f have i: "i < length (workers s)" and d: "snd (workers s ! i) = Delayed"
    and s': "s' = s\<lparr>workers := (workers s)[i := (fst (workers s ! i), Running)]\<rparr>"
    by (auto simp: fire_def split: if_splits)
  have "pendingWeight g s' = pendingWeight g s" for g
    using pendingWeight_update [OF i, of g "(fst (workers s ! i), Running)"] d
    by (simp add: s' isSettled_def)
  with inv show ?thesis by (simp add: poolInvariant_def s')
next
  case (Settles i)
  with f have i: "i < length (workers s)" and r: "snd (workers s ! i) = Running"
    by (auto simp: fire_def split: if_splits)
  let ?x = "fst (workers s ! i)"
  have pw: "pendingWeight g (s\<lparr>workers := (workers s)[i := (?x, Settled v)]\<rparr>) + g ?x = pendingWeight g s" for g v
    using pendingWeight_update [OF i, of g "(?x, Settled v)"] r by (simp add: isSettled_def)
  show ?thesis
  proof (cases "operation ?x")
    case (Returns result)
    with f Settles i r have s': "s' = s\<lparr>workers := (workers s)[i := (?x, Settled result)],
        completed := completed s + 1, successful := successful s + result\<rparr>"
      by (simp add: fire_def)
    have "resultOf operation ?x = result" using Returns by (simp add: resultOf_def)
    with inv pw [of "\<lambda>x. 1" result] pw [of "resultOf operation" result] show ?thesis
      by (simp add: poolInvariant_def s')
  next
    case Throws
    with f Settles i r have s': "s' = s\<lparr>workers := (workers s)[i := (?x, Settled 0)],
        completed := completed s + 1\<rparr>"
      by (simp add: fire_def)
    have "resultOf operation ?x = 0" using Throws by (simp add: resultOf_def)
    with inv pw [of "\<lambda>x. 1" 0] pw [of "resultOf operation" 0] show ?thesis
      by (simp add: poolInvariant_def s')
  qed
next
  case (RaceWon i)
  with f have c: "currentIndex s < length items" and i: "i < length (workers s)"
    and st: "isSettled (snd (workers s ! i))"
    and s': "s' = s\<lparr>workers := (workers s)[i := (items ! currentIndex s, Running)],
        currentIndex := currentIndex s + 1\<rparr>"
    by (auto simp: fire_def split: if_splits)
  have pw: "pendingWeight g (s\<lparr>workers := (workers s)[i := (items ! currentIndex s, Running)]\<rparr>) =
      pendingWeight g s + g (items ! currentIndex s)" for g
    using pendingWeight_update [OF i, of g "(items ! currentIndex s, Running)"] st
    by (simp add: isSettled_def)
  have tk: "take (Suc (currentIndex s)) items = take (currentIndex s) items @ [items ! currentIndex s]"
    using c by (simp add: take_Suc_conv_app_nth)
  from inv c pw [of "\<lambda>x. 1"] pw [of "resultOf operation"] show ?thesis
    by (simp add: poolInvariant_def s' tk)
qed

lemma poolInvariant_runEvents:
  "poolInvariant items operation maxConcurrent s \<Longrightarrow> runEvents items operation evs s = Some s' \<Longrightarrow>
   poolInvariant items operation maxConcurrent s'"
proof (induction evs arbitrary: s)
  case Nil
  then show ?case by simp
next
  case (Cons ev evs)
  from Cons.prems(2) obtain s1 where f: "fire items operation ev s = Some s1"
    and r: "runEvents items operation evs s1 = Some s'"
    by (auto split: option.splits)
  from poolInvariant_fire [OF Cons.prems(1) f] r show ?case by (rule Cons.IH)
qed

lemma remainingSteps_fire:
  assumes f: "fire items operation ev s = Some s'"
  shows "remainingSteps items s' + 1 = remainingSteps items s"
proof -
  let ?h = "\<lambda>w :: 'a \<times> promise. case snd w of Delayed \<Rightarrow> 2 | Running \<Rightarrow> 1 | Settled v \<Rightarrow> (0::nat)"
  show ?thesis
  proof (cases ev)
    case (TimerFires i)
    with f have i: "i < length (workers s)" and d: "snd (workers s ! i) = Delayed"
      and s': "s' = s\<lparr>workers := (workers s)[i := (fst (workers s ! i), Running)]\<rparr>"
      by (auto simp: fire_def split: if_splits)
    from sum_list_map_update [OF i, of ?h "(fst (workers s ! i), Running)"] d
    show ?thesis by (simp add: remainingSteps_def s')
  next
    case (Settles i)
    with f have i: "i < length (workers s)" and r: "snd (workers s ! i) = Running"
      by (auto simp: fire_def split: if_splits)
    from f Settles i r obtain v where
      w: "workers s' = (workers s)[i := (fst (workers s ! i), Settled v)]"
      and c: "currentIndex s' = currentIndex s"
      by (cases "operation (fst (workers s ! i))") (auto simp: fire_def)
    from sum_list_map_update [OF i, of ?h "(fst (workers s ! i), Settled v)"] r
    show ?thesis by (simp add: remainingSteps_def w c)
  next
    case (RaceWon i)
    with f have c: "currentIndex s < length items" and i: "i < length (workers s)"
      and st: "isSettled (snd (workers s ! i))"
      and s': "s' = s\<lparr>workers := (workers s)[i := (items ! currentIndex s, Running)],
          currentIndex := currentIndex s + 1\<rparr>"
      by (auto simp: fire_def split: if_splits)
    from st have "?h (workers s ! i) = 0" by (simp add: isSettled_def split: promise.splits)
    with sum_list_map_update [OF i, of ?h "(items ! currentIndex s, Running)"] c
    show ?thesis by (simp add: remainingSteps_def s')
  qed
qed

lemma remainingSteps_runEvents:
  "runEvents items operation evs s = Some s' \<Longrightarrow>
   remainingSteps items s' + length evs = remainingSteps items s"
proof (induction evs arbitrary: s)
  case Nil
  then show ?case by simp
next
  case (Cons ev evs)
  from Cons.prems obtain s1 where f: "fire items operation ev s = Some s1"
    and r: "runEvents items operation evs s1 = Some s'"
    by (auto split: option.splits)
  from Cons.IH [OF r] remainingSteps_fire [OF f] show ?case by simp
qed

lemma remainingSteps_start: "remainingSteps items (startPool items maxConcurrent) = 2 * length items"
proof -
  have "sum_list (map (\<lambda>w. case snd w of Delayed \<Rightarrow> 2 | Running \<Rightarrow> 1 | Settled v \<Rightarrow> (0::nat))
      (map (\<lambda>x. (x, Delayed)) xs)) = 2 * length xs" for xs :: "'a list"
    by (induction xs) simp_all
  then show ?thesis by (simp add: remainingSteps_def startPool_def)
qed


lemma pendingWeight_one: "pendingWeight (\<lambda>x. 1) s = inFlight s"
proof -
  have "sum_list (map (\<lambda>w. if isSettled (snd w) then 0 else Suc 0) ws) =
      length (filter (\<lambda>w. \<not> isSettled (snd w)) ws)" for ws :: "('a \<times> promise) list"
    by (induction ws) simp_all
  then show ?thesis by (simp add: pendingWeight_def inFlight_def)
qed

lemma inFlight_le_workers: "inFlight s \<le> length (workers s)"
  by (simp add: inFlight_def)

lemma allSettled_inFlight: "allSettled items s \<Longrightarrow> inFlight s = 0"
  by (simp add: allSettled_def inFlight_def list_all_iff)

lemma fire_progress:
  assumes inv: "poolInvariant items operation maxConcurrent s"
    and c: "1 \<le> maxConcurrent"
    and n: "\<not> allSettled items s"
  shows "\<exists>ev s'. fire items operation ev s = Some s'"
proof (cases "list_all (\<lambda>w. isSettled (snd w)) (workers s)")
  case True
  with n have ci: "currentIndex s < length items" by (simp add: allSettled_def)
  then have "0 < length items" by (cases items) simp_all
  with inv c have "0 < length (workers s)" by (simp add: poolInvariant_def)
  moreover from this True have "isSettled (snd (workers s ! 0))"
    by (simp add: list_all_length)
  ultimately have "fire items operation (RaceWon 0) s \<noteq> None"
    using ci by (simp add: fire_def)
  then show ?thesis by blast
next
  case False
  then obtain i where i: "i < length (workers s)" and u: "\<not> isSettled (snd (workers s ! i))"
    by (auto simp: list_all_length)
  show ?thesis
  proof (cases "snd (workers s ! i)")
    case Delayed
    with i have "fire items operation (TimerFires i) s \<noteq> None" by (simp add: fire_def)
    then show ?thesis by blast
  next
    case Running
    with i have "fire items operation (Settles i) s \<noteq> None"
      by (cases "operation (fst (workers s ! i))") (simp_all add: fire_def)
    then show ?thesis by blast
  next
    case (Settled v)
    with u show ?thesis by (simp add: isSettled_def)
  qed
qed

lemma runEvents_append:
  "runEvents items operation (evs @ evs') s =
   (case runEvents items operation evs s of None \<Rightarrow> None | Some s1 \<Rightarrow> runEvents items operation evs' s1)"
  by (induction evs arbitrary: s) (simp_all split: option.splits)

lemma complete_schedule_exists:
  assumes c: "1 \<le> maxConcurrent"
  shows "poolInvariant items operation maxConcurrent s \<Longrightarrow>
    \<exists>evs s'. runEvents items operation evs s = Some s' \<and> allSettled items s'"
proof (induction "remainingSteps items s" arbitrary: s rule: less_induct)
  case less
  show ?case
  proof (cases "allSettled items s")
    case True
    then have "runEvents items operation [] s = Some s \<and> allSettled items s" by simp
    then show ?thesis by blast
  next
    case False
    from fire_progress [OF less.prems c False] obtain ev s1
      where f: "fire items operation ev s = Some s1" by blast
    from remainingSteps_fire [OF f] have "remainingSteps items s1 < remainingSteps items s" by simp
    moreover have "poolInvariant items operation maxConcurrent s1"
      using less.prems f by (rule poolInvariant_fire)
    ultimately obtain evs s' where "runEvents items operation evs s1 = Some s'" "allSettled items s'"
      using less.hyps by blast
    with f have "runEvents items operation (ev # evs) s = Some s' \<and> allSettled items s'" by simp
    then show ?thesis by blast
  qed
qed

lemma fire_Settles_throws:
  assumes "i < length (workers s)" "workers s ! i = (x, Running)" "operation x = Throws"
  shows "fire items operation (Settles i) s =
    Some (s\<lparr>workers := (workers s)[i := (x, Settled 0)], completed := completed s + 1\<rparr>)"
  using assms by (simp add: fire_def)

lemma fire_RaceWon_next:
  assumes "fire items operation (RaceWon i) s = Some s'"
  shows "workers s' = (workers s)[i := (items ! currentIndex s, Running)] \<and>
    currentIndex s' = currentIndex s + 1 \<and> currentIndex s < length items \<and>
    isSettled (snd (workers s ! i))"
  using assms by (auto simp: fire_def split: if_splits)

text \<open>
  What holds on every schedule: never more than \<open>maxConcurrent\<close>
  operations are unsettled, and the counter \<open>successful\<close> has added up the results of all
  items by the time the call returns. The value returned is not this counter.
\<close>

lemma pool_inFlight_bound:
  assumes "runEvents items operation evs (startPool items maxConcurrent) = Some s"
  shows "inFlight s \<le> maxConcurrent"
proof -
  have "poolInvariant items operation maxConcurrent s"
    using poolInvariant_start assms by (rule poolInvariant_runEvents)
  then have "length (workers s) \<le> maxConcurrent" by (simp add: poolInvariant_def)
  with inFlight_le_workers [of s] show ?thesis by simp
qed

lemma pool_counters_at_return:
  assumes "runEvents items operation evs (startPool items maxConcurrent) = Some s"
    and "returned items s = Some r"
  shows "completed s = length items \<and> successful s = sum_list (map (resultOf operation) items)"
proof -
  have inv: "poolInvariant items operation maxConcurrent s"
    using poolInvariant_start assms(1) by (rule poolInvariant_runEvents)
  from assms(2) have a: "allSettled items s" by (simp add: returned_def split: if_splits)
  then have "pendingWeight g s = 0" for g
    by (simp add: pendingWeight_def allSettled_def list_all_iff)
  moreover from a inv have "currentIndex s = length items"
    by (simp add: allSettled_def poolInvariant_def)
  ultimately show ?thesis using inv by (simp add: poolInvariant_def)
qed

lemma totalSuccessful_sum_list:
  "totalSuccessful s = sum_list (map (\<lambda>w. case snd w of Settled v \<Rightarrow> v | _ \<Rightarrow> 0) (workers s))"
proof -
  have "foldl (\<lambda>sum w. sum + f w) a ws = a + sum_list (map f ws)"
    for f :: "'a \<times> promise \<Rightarrow> nat" and a ws
    by (induction ws arbitrary: a) simp_all
  then show ?thesis by (simp add: totalSuccessful_def)
qed

lemma settled_values_fire:
  assumes k: "\<forall>w \<in> set (workers s). \<forall>v. snd w = Settled v \<longrightarrow> v = resultOf operation (fst w)"
    and f: "fire items operation ev s = Some s'"
  shows "\<forall>w \<in> set (workers s'). \<forall>v. snd w = Settled v \<longrightarrow> v = resultOf operation (fst w)"
proof -
  have "\<exists>i x p. workers s' = (workers s)[i := (x, p)] \<and>
      (\<forall>v. p = Settled v \<longrightarrow> v = resultOf operation x)"
  proof (cases ev)
    case (TimerFires i)
    with f have "workers s' = (workers s)[i := (fst (workers s ! i), Running)]"
      by (auto simp: fire_def split: if_splits)
    then show ?thesis by blast
  next
    case (Settles i)
    show ?thesis
    proof (cases "operation (fst (workers s ! i))")
      case (Returns result)
      with f Settles have "workers s' = (workers s)[i := (fst (workers s ! i), Settled result)]"
        by (auto simp: fire_def split: if_splits)
      moreover have "resultOf operation (fst (workers s ! i)) = result"
        using Returns by (simp add: resultOf_def)
      ultimately show ?thesis by blast
    next
      case Throws
      with f Settles have "workers s' = (workers s)[i := (fst (workers s ! i), Settled 0)]"
        by (auto simp: fire_def split: if_splits)
      moreover have "resultOf operation (fst (workers s ! i)) = 0"
        using Throws by (simp add: resultOf_def)
      ultimately show ?thesis
        by (intro exI [of _ i] exI [of _ "fst (workers s ! i)"] exI [of _ "Settled 0"]) simp
    qed
  next
    case (RaceWon i)
    with f have "workers s' = (workers s)[i := (items ! currentIndex s, Running)]"
      by (auto simp: fire_def split: if_splits)
    then show ?thesis by blast
  qed
  then obtain i x p where w': "workers s' = (workers s)[i := (x, p)]"
    and p: "\<forall>v. p = Settled v \<longrightarrow> v = resultOf operation x"
    by blast
  have sub: "set (workers s') \<subseteq> insert (x, p) (set (workers s))"
    unfolding w' by (rule set_update_subset_insert)
  show ?thesis
  proof (intro ballI allI impI)
    fix w v
    assume w: "w \<in> set (workers s')" and v: "snd w = Settled v"
    from w sub have "w = (x, p) \<or> w \<in> set (workers s)" by auto
    with k p v show "v = resultOf operation (fst w)" by auto
  qed
qed

lemma settled_values_runEvents:
  "\<forall>w \<in> set (workers s). \<forall>v. snd w = Settled v \<longrightarrow> v = resultOf operation (fst w) \<Longrightarrow>
   runEvents items operation evs s = Some s' \<Longrightarrow>
   \<forall>w \<in> set (workers s'). \<forall>v. snd w = Settled v \<longrightarrow> v = resultOf operation (fst w)"
proof (induction evs arbitrary: s)
  case Nil
  then show ?case by simp
next
  case (Cons ev evs)
  from Cons.prems(2) obtain s1 where f: "fire items operation ev s = Some s1"
    and r: "runEvents items operation evs s1 = Some s'"
    by (auto split: option.splits)
  from settled_values_fire [OF Cons.prems(1) f] r show ?case by (rule Cons.IH)
qed

text \<open>
  What the call does return: the sum of the results of the items that occupy the
  \<open>min(maxConcurrent, length)\<close> slots at the end.
\<close>

lemma returned_sum_of_last_occupants:
  assumes run: "runEvents items operation evs (startPool items maxConcurrent) = Some s"
    and ret: "returned items s = Some r"
  shows "r = sum_list (map (\<lambda>w. resultOf operation (fst w)) (workers s)) \<and>
    length (workers s) = min maxConcurrent (length items)"
proof -
  have "\<forall>w \<in> set (workers (startPool items maxConcurrent)). \<forall>v.
      snd w = Settled v \<longrightarrow> v = resultOf operation (fst w)"
    by (auto simp: startPool_def)
  from settled_values_runEvents [OF this run]
  have k: "\<forall>w \<in> set (workers s). \<forall>v. snd w = Settled v \<longrightarrow> v = resultOf operation (fst w)" .
  from ret have a: "list_all (\<lambda>w. isSettled (snd w)) (workers s)" and r: "r = totalSuccessful s"
    by (auto simp: returned_def allSettled_def split: if_splits)
  have "sum_list (map (\<lambda>w. case snd w of Settled v \<Rightarrow> v | _ \<Rightarrow> 0) (workers s)) =
      sum_list (map (\<lambda>w. resultOf operation (fst w)) (workers s))"
    using a k by (intro arg_cong [where f = sum_list])
      (auto simp: list_all_iff isSettled_def split: promise.splits)
  moreover have "poolInvariant items operation maxConcurrent s"
    using poolInvariant_start run by (rule poolInvariant_runEvents)
  ultimately show ?thesis
    by (simp add: r totalSuccessful_sum_list poolInvariant_def)
qed

lemma no_replacement_fire:
  assumes "map fst (workers s) = items" "currentIndex s = length items"
    and f: "fire items operation ev s = Some s'"
  shows "map fst (workers s') = items \<and> currentIndex s' = length items"
proof (cases ev)
  case (RaceWon i)
  with f assms show ?thesis by (simp add: fire_def)
next
  case (TimerFires i)
  with f assms show ?thesis
    by (auto simp: fire_def map_update list_update_same_conv split: if_splits)
next
  case (Settles i)
  with f assms show ?thesis
    by (cases "operation (fst (workers s ! i))")
      (auto simp: fire_def map_update list_update_same_conv split: if_splits)
qed

lemma no_replacement_runEvents:
  "map fst (workers s) = items \<Longrightarrow> currentIndex s = length items \<Longrightarrow>
   runEvents items operation evs s = Some s' \<Longrightarrow> map fst (workers s') = items"
proof (induction evs arbitrary: s)
  case Nil
  then show ?case by simp
next
  case (Cons ev evs)
  from Cons.prems(3) obtain s1 where f: "fire items operation ev s = Some s1"
    and r: "runEvents items operation evs s1 = Some s'"
    by (auto split: option.splits)
  from no_replacement_fire [OF Cons.prems(1,2) f] r show ?case
    using Cons.IH by blast
qed

text \<open>With a slot for every item nothing is replaced, and the sum returned is complete.\<close>

lemma returned_total_when_all_fit:
  assumes "length items \<le> maxConcurrent"
    and run: "runEvents items operation evs (startPool items maxConcurrent) = Some s"
    and ret: "returned items s = Some r"
  shows "r = sum_list (map (resultOf operation) items)"
proof -
  from assms(1) have "map fst (workers (startPool items maxConcurrent)) = items"
    and "currentIndex (startPool items maxConcurrent) = length items"
    by (simp_all add: startPool_def comp_def min_def)
  from no_replacement_runEvents [OF this run] have "map fst (workers s) = items" .
  moreover have "map (\<lambda>w. resultOf operation (fst w)) (workers s) =
      map (resultOf operation) (map fst (workers s))"
    by simp
  ultimately have "map (\<lambda>w. resultOf operation (fst w)) (workers s) = map (resultOf operation) items"
    by (simp only:)
  with returned_sum_of_last_occupants [OF run ret] show ?thesis by simp
qed

text \<open>
  C1: the call is to return the sum of the results of all items. Two items with results
  3 and 4 and one slot: the second item replaces the first in \<open>workers[0]\<close>, and the
  sum over \<open>workers\<close> at the end holds only the 4.
\<close>

theorem runParallel_drops_replaced_results:
  "(1::nat) \<le> 1 \<and> 1 \<le> length [3, 4 :: nat] \<and>
   runParallel [3, 4] Returns 1 [TimerFires 0, Settles 0, RaceWon 0, Settles 0] = Some 4 \<and>
   sum_list (map (resultOf Returns) [3, 4]) = 7"
  by (simp add: runParallel_def startPool_def fire_def returned_def allSettled_def
      totalSuccessful_def isSettled_def resultOf_def)

text \<open>
  C2: with at least one slot, at every point of every schedule
  \<^item> an operation that throws settles its own worker with the value 0 and increments
    \<open>completed\<close>; no other worker and no other variable changes;
  \<^item> every item dispatched so far is either counted in \<open>completed\<close> or still unsettled;
  \<^item> as long as the call has not returned some event can happen, whatever has thrown;
  \<^item> the call returns only when all items have been dispatched and have settled, after
    exactly two events per item; no schedule is longer than that, and every schedule
    extends to one on which the call returns.
\<close>

theorem scheduler_isolates_failures:
  assumes c: "1 \<le> maxConcurrent"
    and run: "runEvents items operation evs (startPool items maxConcurrent) = Some s"
  shows
  "(\<forall>i x. i < length (workers s) \<and> workers s ! i = (x, Running) \<and> operation x = Throws \<longrightarrow>
      fire items operation (Settles i) s =
        Some (s\<lparr>workers := (workers s)[i := (x, Settled 0)], completed := completed s + 1\<rparr>)) \<and>
   completed s + inFlight s = currentIndex s \<and>
   currentIndex s \<le> length items \<and>
   (returned items s = None \<longrightarrow> (\<exists>ev s'. fire items operation ev s = Some s')) \<and>
   (\<forall>r. returned items s = Some r \<longrightarrow>
      completed s = length items \<and> inFlight s = 0 \<and> length evs = 2 * length items) \<and>
   length evs \<le> 2 * length items \<and>
   (\<exists>evs' s' r. runEvents items operation (evs @ evs') (startPool items maxConcurrent) = Some s' \<and>
      returned items s' = Some r)"
proof -
  have inv: "poolInvariant items operation maxConcurrent s"
    using poolInvariant_start run by (rule poolInvariant_runEvents)
  have steps: "remainingSteps items s + length evs = 2 * length items"
    using remainingSteps_runEvents [OF run] by (simp add: remainingSteps_start)
  have 1: "\<forall>i x. i < length (workers s) \<and> workers s ! i = (x, Running) \<and> operation x = Throws \<longrightarrow>
      fire items operation (Settles i) s =
        Some (s\<lparr>workers := (workers s)[i := (x, Settled 0)], completed := completed s + 1\<rparr>)"
    by (simp add: fire_def)
  have 2: "completed s + inFlight s = currentIndex s"
    using inv pendingWeight_one [of s] by (simp add: poolInvariant_def)
  have 3: "currentIndex s \<le> length items"
    using inv by (simp add: poolInvariant_def)
  have 4: "returned items s = None \<longrightarrow> (\<exists>ev s'. fire items operation ev s = Some s')"
  proof
    assume "returned items s = None"
    then have "\<not> allSettled items s" by (simp add: returned_def split: if_splits)
    with inv c show "\<exists>ev s'. fire items operation ev s = Some s'" by (rule fire_progress)
  qed
  have 5: "\<forall>r. returned items s = Some r \<longrightarrow>
      completed s = length items \<and> inFlight s = 0 \<and> length evs = 2 * length items"
  proof (intro allI impI)
    fix r
    assume r: "returned items s = Some r"
    then have a: "allSettled items s" by (simp add: returned_def split: if_splits)
    have z: "list_all (\<lambda>w. isSettled (snd w)) ws \<Longrightarrow>
        sum_list (map (\<lambda>w. case snd w of Delayed \<Rightarrow> 2 | Running \<Rightarrow> 1 | Settled v \<Rightarrow> (0::nat)) ws) = 0"
      for ws :: "('a \<times> promise) list"
      by (induction ws) (simp_all add: isSettled_def split: promise.splits)
    from a have "remainingSteps items s = 0"
      by (simp add: remainingSteps_def allSettled_def z)
    with steps pool_counters_at_return [OF run r] allSettled_inFlight [OF a]
    show "completed s = length items \<and> inFlight s = 0 \<and> length evs = 2 * length items"
      by simp
  qed
  have 6: "length evs \<le> 2 * length items" using steps by simp
  have 7: "\<exists>evs' s' r. runEvents items operation (evs @ evs') (startPool items maxConcurrent) = Some s' \<and>
      returned items s' = Some r"
  proof -
    from complete_schedule_exists [OF c inv] obtain evs' s'
      where "runEvents items operation evs' s = Some s'" and "allSettled items s'" by blast
    with run have "runEvents items operation (evs @ evs') (startPool items maxConcurrent) = Some s' \<and>
        returned items s' = Some (totalSuccessful s')"
      by (simp add: runEvents_append returned_def)
    then show ?thesis by blast
  qed
  from 1 2 3 4 5 6 7 show ?thesis by (intro conjI)
qed

theorem scheduler_isolates_failures_witness:
  "(1::nat) \<le> 2 \<and>
   runEvents [3, 4, 5] exampleOperation [TimerFires 1] (startPool [3, 4, 5] 2) =
     Some \<lparr>workers = [(3, Delayed), (4, Running)], currentIndex = 2, completed = 0, successful = 0\<rparr> \<and>
   exampleOperation 4 = Throws \<and>
   fire [3, 4, 5] exampleOperation (Settles 1)
     \<lparr>workers = [(3, Delayed), (4, Running)], currentIndex = 2, completed = 0, successful = 0\<rparr> =
     Some \<lparr>workers = [(3, Delayed), (4, Settled 0)], currentIndex = 2, completed = 1, successful = 0\<rparr> \<and>
   runEvents [3, 4, 5] exampleOperation
     [TimerFires 1, TimerFires 0, Settles 1, RaceWon 1, Settles 1, Settles 0] (startPool [3, 4, 5] 2) =
     Some \<lparr>workers = [(3, Settled 3), (5, Settled 5)], currentIndex = 3, completed = 3, successful = 8\<rparr> \<and>
   returned [3, 4, 5 :: nat]
     \<lparr>workers = [(3, Settled 3), (5, Settled 5)], currentIndex = 3, completed = 3, successful = 8\<rparr> = Some 8 \<and>
   completed \<lparr>workers = [(3 :: nat, Settled 3), (5, Settled 5)], currentIndex = 3, completed = 3, successful = 8\<rparr> =
     length [3, 4, 5 :: nat]"
proof -
  let ?s1 = "\<lparr>workers = [(3 :: nat, Delayed), (4, Running)], currentIndex = 2, completed = 0, successful = 0\<rparr>"
  let ?s2 = "\<lparr>workers = [(3 :: nat, Settled 3), (5, Settled 5)], currentIndex = 3, completed = 3, successful = 8\<rparr>"
  have c: "(1::nat) \<le> 2" by simp
  have r1: "runEvents [3, 4, 5] exampleOperation [TimerFires 1] (startPool [3, 4, 5] 2) = Some ?s1"
    by (simp add: startPool_def fire_def)
  have r2: "runEvents [3, 4, 5] exampleOperation
      [TimerFires 1, TimerFires 0, Settles 1, RaceWon 1, Settles 1, Settles 0] (startPool [3, 4, 5] 2) = Some ?s2"
    by (simp add: startPool_def fire_def exampleOperation_def isSettled_def)
  have t: "exampleOperation 4 = Throws" by (simp add: exampleOperation_def)
  have ret: "returned [3, 4, 5 :: nat] ?s2 = Some 8"
    by (simp add: returned_def allSettled_def totalSuccessful_def isSettled_def)
  have "1 < length (workers ?s1) \<and> workers ?s1 ! 1 = (4, Running) \<and> exampleOperation 4 = Throws"
    by (simp add: t)
  from scheduler_isolates_failures [OF c r1, THEN conjunct1, rule_format, OF this]
  have f: "fire [3, 4, 5] exampleOperation (Settles 1) ?s1 =
      Some \<lparr>workers = [(3, Delayed), (4, Settled 0)], currentIndex = 2, completed = 1, successful = 0\<rparr>"
    by simp
  from scheduler_isolates_failures [OF c r2] ret
  have "completed ?s2 = length [3, 4, 5 :: nat]" by blast
  with c r1 r2 t ret f show ?thesis by (intro conjI)
qed

subsection \<open>Normalizing recon results\<close>

lemma set_setAdd: "set (setAdd x xs) = insert x (set xs)"
  by (auto simp: setAdd_def)

lemma distinct_setAdd: "distinct xs \<Longrightarrow> distinct (setAdd x xs)"
  by (simp add: setAdd_def)

lemma map_of_mapSet: "map_of (mapSet k v m) = (map_of m)(k \<mapsto> v)"
proof (cases "k \<in> fst ` set m")
  case True
  have "map_of (map (\<lambda>kv. if fst kv = k then (k, v) else kv) m') k' =
      (if k' = k then (if k \<in> fst ` set m' then Some v else None) else map_of m' k')"
    for k' and m' :: "('a \<times> 'b) list"
    by (induction m') (auto split: if_splits)
  with True show ?thesis by (simp add: mapSet_def fun_eq_iff)
next
  case False
  then have "map_of m k = None" by (simp add: map_of_eq_None_iff)
  with False show ?thesis
    by (auto simp: mapSet_def fun_eq_iff map_add_def split: option.splits)
qed

lemma keys_mapSet: "map fst (mapSet k v m) = setAdd k (map fst m)"
proof -
  have "map fst (map (\<lambda>kv. if fst kv = k then (k, v) else kv) m) = map fst m"
    by (induction m) auto
  then show ?thesis by (simp add: mapSet_def setAdd_def)
qed

lemma map_of_withHost: "map_of (withHost m h f) = (map_of m)(h \<mapsto> f (entryOf m h))"
  by (cases "map_of m h")
    (auto simp: withHost_def upsertHost_def entryOf_def map_of_mapSet fun_eq_iff map_add_def
      split: option.splits)

lemma keys_withHost: "map fst (withHost m h f) = setAdd h (map fst m)"
proof (cases "map_of m h")
  case None
  then have "h \<notin> fst ` set m" by (simp add: map_of_eq_None_iff)
  with None show ?thesis
    by (simp add: withHost_def upsertHost_def keys_mapSet setAdd_def)
next
  case (Some r)
  then show ?thesis by (simp add: withHost_def upsertHost_def keys_mapSet)
qed

lemma keys_withHost_set: "fst ` set (withHost m h f) = insert h (fst ` set m)"
  using arg_cong [OF keys_withHost [of m h f], of set] by (simp add: set_setAdd)

lemma entryOf_withHost:
  "entryOf (withHost m k f) h = (if h = k then f (entryOf m k) else entryOf m h)"
  by (simp add: entryOf_def map_of_withHost)

lemma entryOf_fold:
  "entryOf (foldl (\<lambda>m e. withHost m (key e) (upd e)) m es) h = foldHost key upd h (entryOf m h) es"
proof (induction es arbitrary: m)
  case Nil
  then show ?case by (simp add: foldHost_def)
next
  case (Cons e es)
  show ?case
    using Cons.IH [of "withHost m (key e) (upd e)"]
    by (simp add: foldHost_def entryOf_withHost)
qed

lemma keys_fold:
  "set (map fst (foldl (\<lambda>m e. withHost m (key e) (upd e)) m es)) = set (map fst m) \<union> key ` set es"
  by (induction es arbitrary: m) (simp_all add: keys_withHost_set)

lemma distinct_keys_fold:
  "distinct (map fst m) \<Longrightarrow> distinct (map fst (foldl (\<lambda>m e. withHost m (key e) (upd e)) m es))"
  by (induction es arbitrary: m) (simp_all add: keys_withHost distinct_setAdd)

lemma foldHost_Cons:
  "foldHost key upd h r (e # es) = foldHost key upd h (if key e = h then upd e r else r) es"
  by (simp add: foldHost_def)

lemma foldHost_Nil: "foldHost key upd h r [] = r"
  by (simp add: foldHost_def)

lemma fold_ips:
  "set (ips (foldl (\<lambda>r i. r\<lparr>ips := setAdd i (ips r)\<rparr>) r xs)) = set (ips r) \<union> set xs"
  "tech (foldl (\<lambda>r i. r\<lparr>ips := setAdd i (ips r)\<rparr>) r xs) = tech r"
  "sources (foldl (\<lambda>r i. r\<lparr>ips := setAdd i (ips r)\<rparr>) r xs) = sources r"
  "titles (foldl (\<lambda>r i. r\<lparr>ips := setAdd i (ips r)\<rparr>) r xs) = titles r"
  "webservers (foldl (\<lambda>r i. r\<lparr>ips := setAdd i (ips r)\<rparr>) r xs) = webservers r"
  "liveness (foldl (\<lambda>r i. r\<lparr>ips := setAdd i (ips r)\<rparr>) r xs) = liveness r"
  "host (foldl (\<lambda>r i. r\<lparr>ips := setAdd i (ips r)\<rparr>) r xs) = host r"
  "ports (foldl (\<lambda>r i. r\<lparr>ips := setAdd i (ips r)\<rparr>) r xs) = ports r"
  by (induction xs arbitrary: r) (auto simp: set_setAdd)

lemma fold_tech:
  "set (tech (foldl (\<lambda>r t. r\<lparr>tech := setAdd t (tech r)\<rparr>) r xs)) = set (tech r) \<union> set xs"
  "ips (foldl (\<lambda>r t. r\<lparr>tech := setAdd t (tech r)\<rparr>) r xs) = ips r"
  "sources (foldl (\<lambda>r t. r\<lparr>tech := setAdd t (tech r)\<rparr>) r xs) = sources r"
  "titles (foldl (\<lambda>r t. r\<lparr>tech := setAdd t (tech r)\<rparr>) r xs) = titles r"
  "webservers (foldl (\<lambda>r t. r\<lparr>tech := setAdd t (tech r)\<rparr>) r xs) = webservers r"
  "liveness (foldl (\<lambda>r t. r\<lparr>tech := setAdd t (tech r)\<rparr>) r xs) = liveness r"
  "host (foldl (\<lambda>r t. r\<lparr>tech := setAdd t (tech r)\<rparr>) r xs) = host r"
  "ports (foldl (\<lambda>r t. r\<lparr>tech := setAdd t (tech r)\<rparr>) r xs) = ports r"
  by (induction xs arbitrary: r) (auto simp: set_setAdd)

lemma fold_sources:
  "set (sources (foldl (\<lambda>r s. r\<lparr>sources := setAdd (g s) (sources r)\<rparr>) r xs)) =
     set (sources r) \<union> g ` set xs"
  "ips (foldl (\<lambda>r s. r\<lparr>sources := setAdd (g s) (sources r)\<rparr>) r xs) = ips r"
  "tech (foldl (\<lambda>r s. r\<lparr>sources := setAdd (g s) (sources r)\<rparr>) r xs) = tech r"
  "titles (foldl (\<lambda>r s. r\<lparr>sources := setAdd (g s) (sources r)\<rparr>) r xs) = titles r"
  "webservers (foldl (\<lambda>r s. r\<lparr>sources := setAdd (g s) (sources r)\<rparr>) r xs) = webservers r"
  "liveness (foldl (\<lambda>r s. r\<lparr>sources := setAdd (g s) (sources r)\<rparr>) r xs) = liveness r"
  "host (foldl (\<lambda>r s. r\<lparr>sources := setAdd (g s) (sources r)\<rparr>) r xs) = host r"
  "ports (foldl (\<lambda>r s. r\<lparr>sources := setAdd (g s) (sources r)\<rparr>) r xs) = ports r"
  by (induction xs arbitrary: r) (auto simp: set_setAdd)

lemma subfinderUpdate_fields:
  "set (ips (subfinderUpdate e r)) = set (ips r) \<union> {i. sf_ip e = Some i \<and> i \<noteq> []}"
  "set (sources (subfinderUpdate e r)) =
     set (sources r) \<union> {''subfinder:'' @ s | s. sf_source e = Some s \<and> s \<noteq> []}"
  "tech (subfinderUpdate e r) = tech r"
  "titles (subfinderUpdate e r) = titles r"
  "webservers (subfinderUpdate e r) = webservers r"
  "liveness (subfinderUpdate e r) = liveness r"
  "host (subfinderUpdate e r) = host r"
  by (auto simp: subfinderUpdate_def Let_def set_setAdd split: option.splits)

lemma amassUpdate_fields:
  "set (ips (amassUpdate n r)) = set (ips r) \<union> set (node_addresses n)"
  "set (sources (amassUpdate n r)) = set (sources r) \<union> {''amass:'' @ s | s. s \<in> set (node_sources n)}"
  "tech (amassUpdate n r) = tech r"
  "titles (amassUpdate n r) = titles r"
  "webservers (amassUpdate n r) = webservers r"
  "liveness (amassUpdate n r) = liveness r"
  "host (amassUpdate n r) = host r"
  by (auto simp: amassUpdate_def Let_def fold_ips fold_sources)

lemma httpxUpdate_fields:
  "set (ips (httpxUpdate e r)) = set (ips r) \<union> set (ensureArray (hx_a e))"
  "sources (httpxUpdate e r) = sources r"
  "set (tech (httpxUpdate e r)) = set (tech r) \<union> set (ensureArray (hx_tech e))"
  "set (titles (httpxUpdate e r)) = set (titles r) \<union> {t. hx_title e = Some t \<and> t \<noteq> []}"
  "set (webservers (httpxUpdate e r)) = set (webservers r) \<union> {w. hx_webserver e = Some w \<and> w \<noteq> []}"
  "liveness (httpxUpdate e r) = (liveness r \<or> hx_status_code e < 500)"
  "host (httpxUpdate e r) = host r"
  by (auto simp: httpxUpdate_def Let_def fold_ips fold_tech set_setAdd split: option.splits)

lemma trailsUpdate_fields:
  "ips (trailsUpdate t r) = ips r"
  "set (sources (trailsUpdate t r)) =
     set (sources r) \<union> {''securitytrails:'' @ s | s. st_organization t = Some s \<and> s \<noteq> []}"
  "tech (trailsUpdate t r) = tech r"
  "titles (trailsUpdate t r) = titles r"
  "webservers (trailsUpdate t r) = webservers r"
  "liveness (trailsUpdate t r) = liveness r"
  "host (trailsUpdate t r) = host r"
  by (auto simp: trailsUpdate_def Let_def set_setAdd split: option.splits)

lemma foldHost_set_field:
  assumes "\<And>e r. set (fld (upd e r)) = set (fld r) \<union> A e"
  shows "set (fld (foldHost key upd h r es)) = set (fld r) \<union> (\<Union>e \<in> {e \<in> set es. key e = h}. A e)"
  by (induction es arbitrary: r) (auto simp: foldHost_Nil foldHost_Cons assms)

lemma foldHost_same_field:
  assumes "\<And>e r. fld (upd e r) = fld r"
  shows "fld (foldHost key upd h r es) = fld r"
  by (induction es arbitrary: r) (auto simp: foldHost_Nil foldHost_Cons assms)

lemma foldHost_liveness:
  assumes "\<And>e r. liveness (upd e r) = (liveness r \<or> P e)"
  shows "liveness (foldHost key upd h r es) = (liveness r \<or> (\<exists>e \<in> set es. key e = h \<and> P e))"
  by (induction es arbitrary: r) (auto simp: foldHost_Nil foldHost_Cons assms)


lemma entryOf_collectHosts:
  "entryOf (collectHosts inputs) h =
   foldHost st_hostname trailsUpdate h
     (foldHost hx_host httpxUpdate h
       (foldHost node_name amassUpdate h
         (foldHost sf_host subfinderUpdate h (newHost h) (ensureArray (subfinder inputs)))
         (ensureArray (amass inputs)))
       (ensureArray (httpx inputs)))
     (ensureArray (securitytrails inputs))"
proof -
  have "entryOf [] h = newHost h" by (simp add: entryOf_def)
  then show ?thesis by (simp add: collectHosts_def Let_def entryOf_fold)
qed

lemma keys_collectHosts:
  "distinct (map fst (collectHosts inputs))"
  "set (map fst (collectHosts inputs)) =
     sf_host ` set (ensureArray (subfinder inputs)) \<union> node_name ` set (ensureArray (amass inputs)) \<union>
     hx_host ` set (ensureArray (httpx inputs)) \<union> st_hostname ` set (ensureArray (securitytrails inputs))"
proof -
  show "distinct (map fst (collectHosts inputs))"
    by (simp add: collectHosts_def Let_def distinct_keys_fold)
  show "set (map fst (collectHosts inputs)) =
     sf_host ` set (ensureArray (subfinder inputs)) \<union> node_name ` set (ensureArray (amass inputs)) \<union>
     hx_host ` set (ensureArray (httpx inputs)) \<union> st_hostname ` set (ensureArray (securitytrails inputs))"
    unfolding collectHosts_def Let_def keys_fold by simp
qed

lemma host_entryOf_collectHosts: "host (entryOf (collectHosts inputs) h) = h"
  by (simp add: entryOf_collectHosts foldHost_same_field trailsUpdate_fields httpxUpdate_fields
      amassUpdate_fields subfinderUpdate_fields newHost_def)

lemma collectHosts_entry:
  assumes "(k, e) \<in> set (collectHosts inputs)"
  shows "e = entryOf (collectHosts inputs) k" and "host e = k"
proof -
  from assms keys_collectHosts(1) [of inputs] have "map_of (collectHosts inputs) k = Some e"
    by simp
  then show e: "e = entryOf (collectHosts inputs) k" by (simp add: entryOf_def)
  show "host e = k" unfolding e by (rule host_entryOf_collectHosts)
qed

lemma collectHosts_ips:
  "set (ips (entryOf (collectHosts inputs) h)) =
     {i. \<exists>e \<in> set (ensureArray (subfinder inputs)). sf_host e = h \<and> sf_ip e = Some i \<and> i \<noteq> []} \<union>
     {i. \<exists>n \<in> set (ensureArray (amass inputs)). node_name n = h \<and> i \<in> set (node_addresses n)} \<union>
     {i. \<exists>e \<in> set (ensureArray (httpx inputs)). hx_host e = h \<and> i \<in> set (ensureArray (hx_a e))}"
  unfolding entryOf_collectHosts
  by (subst foldHost_same_field [where fld = ips], simp add: trailsUpdate_fields,
      subst foldHost_set_field [where fld = ips, OF httpxUpdate_fields(1)],
      subst foldHost_set_field [where fld = ips, OF amassUpdate_fields(1)],
      subst foldHost_set_field [where fld = ips, OF subfinderUpdate_fields(1)])
    (auto simp: newHost_def)


lemma collectHosts_sources:
  "set (sources (entryOf (collectHosts inputs) h)) =
     {''subfinder:'' @ s | s. \<exists>e \<in> set (ensureArray (subfinder inputs)).
        sf_host e = h \<and> sf_source e = Some s \<and> s \<noteq> []} \<union>
     {''amass:'' @ s | s. \<exists>n \<in> set (ensureArray (amass inputs)).
        node_name n = h \<and> s \<in> set (node_sources n)} \<union>
     {''securitytrails:'' @ s | s. \<exists>t \<in> set (ensureArray (securitytrails inputs)).
        st_hostname t = h \<and> st_organization t = Some s \<and> s \<noteq> []}"
  unfolding entryOf_collectHosts
  by (subst foldHost_set_field [where fld = sources, OF trailsUpdate_fields(2)],
      subst foldHost_same_field [where fld = sources], simp add: httpxUpdate_fields,
      subst foldHost_set_field [where fld = sources, OF amassUpdate_fields(2)],
      subst foldHost_set_field [where fld = sources, OF subfinderUpdate_fields(2)])
    (auto simp: newHost_def)

lemma collectHosts_tech:
  "set (tech (entryOf (collectHosts inputs) h)) =
     {t. \<exists>e \<in> set (ensureArray (httpx inputs)). hx_host e = h \<and> t \<in> set (ensureArray (hx_tech e))}"
  unfolding entryOf_collectHosts
  by (subst foldHost_same_field [where fld = tech], simp add: trailsUpdate_fields,
      subst foldHost_set_field [where fld = tech, OF httpxUpdate_fields(3)],
      subst foldHost_same_field [where fld = tech], simp add: amassUpdate_fields,
      subst foldHost_same_field [where fld = tech], simp add: subfinderUpdate_fields)
    (auto simp: newHost_def)

lemma collectHosts_titles:
  "set (titles (entryOf (collectHosts inputs) h)) =
     {t. \<exists>e \<in> set (ensureArray (httpx inputs)). hx_host e = h \<and> hx_title e = Some t \<and> t \<noteq> []}"
  unfolding entryOf_collectHosts
  by (subst foldHost_same_field [where fld = titles], simp add: trailsUpdate_fields,
      subst foldHost_set_field [where fld = titles, OF httpxUpdate_fields(4)],
      subst foldHost_same_field [where fld = titles], simp add: amassUpdate_fields,
      subst foldHost_same_field [where fld = titles], simp add: subfinderUpdate_fields)
    (auto simp: newHost_def)

lemma collectHosts_webservers:
  "set (webservers (entryOf (collectHosts inputs) h)) =
     {w. \<exists>e \<in> set (ensureArray (httpx inputs)). hx_host e = h \<and> hx_webserver e = Some w \<and> w \<noteq> []}"
  unfolding entryOf_collectHosts
  by (subst foldHost_same_field [where fld = webservers], simp add: trailsUpdate_fields,
      subst foldHost_set_field [where fld = webservers, OF httpxUpdate_fields(5)],
      subst foldHost_same_field [where fld = webservers], simp add: amassUpdate_fields,
      subst foldHost_same_field [where fld = webservers], simp add: subfinderUpdate_fields)
    (auto simp: newHost_def)

lemma collectHosts_liveness:
  "liveness (entryOf (collectHosts inputs) h) =
     (\<exists>e \<in> set (ensureArray (httpx inputs)). hx_host e = h \<and> hx_status_code e < 500)"
  unfolding entryOf_collectHosts
  by (subst foldHost_same_field [where fld = liveness], simp add: trailsUpdate_fields,
      subst foldHost_liveness [OF httpxUpdate_fields(6)],
      subst foldHost_same_field [where fld = liveness], simp add: amassUpdate_fields,
      subst foldHost_same_field [where fld = liveness], simp add: subfinderUpdate_fields)
    (auto simp: newHost_def)

lemma reportedCountries_snoc:
  "reportedCountries h (ts @ [t]) =
   reportedCountries h ts @
     (if st_hostname t = h then (case st_country t of None \<Rightarrow> [] | Some c \<Rightarrow> if c \<noteq> [] then [c] else [])
      else [])"
  by (simp add: reportedCountries_def)

lemma collectCountries_last:
  "map_of (foldl trailsCountry [] ts) h =
   (if reportedCountries h ts = [] then None else Some (last (reportedCountries h ts)))"
proof (induction ts rule: rev_induct)
  case Nil
  then show ?case by (simp add: reportedCountries_def)
next
  case (snoc t ts)
  then show ?case
    by (auto simp: reportedCountries_snoc trailsCountry_def map_of_mapSet split: option.splits)
qed

lemma reportedCountries_nonempty: "c \<in> set (reportedCountries h ts) \<Longrightarrow> c \<noteq> []"
  by (auto simp: reportedCountries_def split: if_splits option.splits)

lemma country_of_host:
  "whenTruthy (map_of (collectCountries inputs) h) =
   (if reportedCountries h (ensureArray (securitytrails inputs)) = [] then None
    else Some (last (reportedCountries h (ensureArray (securitytrails inputs)))))"
proof (cases "reportedCountries h (ensureArray (securitytrails inputs)) = []")
  case True
  then show ?thesis by (simp add: collectCountries_def collectCountries_last whenTruthy_def truthy_def)
next
  case False
  then have "last (reportedCountries h (ensureArray (securitytrails inputs))) \<noteq> []"
    using reportedCountries_nonempty last_in_set by blast
  with False show ?thesis
    by (simp add: collectCountries_def collectCountries_last whenTruthy_def truthy_def)
qed

lemma buildResults_Inr:
  "buildResults clock inputs k es = Inr rs \<Longrightarrow>
   length rs = length es \<and>
   (\<forall>i < length es. hostResult (clock 0) (clock (k + i + 1)) inputs (es ! i) = Inr (rs ! i))"
proof (induction es arbitrary: k rs)
  case Nil
  then show ?case by simp
next
  case (Cons e es)
  from Cons.prems obtain r rs' where r: "hostResult (clock 0) (clock (k + 1)) inputs e = Inr r"
    and rs': "buildResults clock inputs (k + 1) es = Inr rs'" and rs: "rs = r # rs'"
    by (auto split: sum.splits)
  from Cons.IH [OF rs'] have l: "length rs' = length es"
    and n: "\<And>i. i < length es \<Longrightarrow>
      hostResult (clock 0) (clock (k + 1 + i + 1)) inputs (es ! i) = Inr (rs' ! i)"
    by simp_all
  show ?case
  proof (intro conjI allI impI)
    show "length rs = length (e # es)" using l rs by simp
    fix i
    assume "i < length (e # es)"
    then show "hostResult (clock 0) (clock (k + i + 1)) inputs ((e # es) ! i) = Inr (rs ! i)"
      using r n rs by (cases i) simp_all
  qed
qed

lemma hostResult_fields:
  assumes "hostResult now stamp inputs e = Inr r"
  shows "subdomain r = host e" "ip r = (case ips e of [] \<Rightarrow> None | i # _ \<Rightarrow> Some i)"
    "rr_tech r = tech e" "fp_titles (fingerprints r) = titles e"
    "fp_webservers (fingerprints r) = webservers e"
    "fp_country (fingerprints r) = whenTruthy (map_of (collectCountries inputs) (host e))"
    "map contributors (rr_sources r) = [sources e]" "isAlive r = liveness e"
  using assms by (auto simp: hostResult_def Let_def split: if_splits)

lemma exampleRecon_collectHosts:
  "collectHosts exampleRecon =
     [(''foo.bar'',
       \<lparr>host = ''foo.bar'', ips = [''1.2.3.4'', ''5.6.7.8''],
        ports = [(443, \<lparr>pi_protocol = Some ''tcp'', pi_service = Some ''https''\<rparr>),
                 (8080, \<lparr>pi_protocol = Some ''tcp'', pi_service = Some ''http''\<rparr>)],
        tech = [''nginx''], sources = [''subfinder:crtsh'', ''securitytrails:Bar Inc''],
        titles = [''Welcome'', ''Maintenance''], webservers = [''nginx'', ''apache''],
        liveness = True\<rparr>)]"
  by (simp add: collectHosts_def exampleRecon_def ensureArray_def withHost_def upsertHost_def
      newHost_def mapSet_def setAdd_def subfinderUpdate_def httpxUpdate_def httpxPort_def
      trailsUpdate_def trailsPort_def nullish_def truthy_def Let_def)

lemma exampleRecon_countries: "collectCountries exampleRecon = [(''foo.bar'', ''DE'')]"
  by (simp add: collectCountries_def exampleRecon_def ensureArray_def trailsCountry_def mapSet_def)

lemma exampleRecon_result: "normalizeRecon exampleClock exampleRecon = Inr [exampleReconResult]"
  by (simp add: normalizeRecon_def exampleRecon_collectHosts hostResult_def exampleRecon_countries
      parsePort_def whenTruthy_def truthy_def sourcesMeta_def exampleClock_def exampleReconResult_def Let_def)
    (simp add: exampleRecon_def)

lemma normalizeRecon_entries:
  assumes ok: "normalizeRecon clock inputs = Inr results"
  shows "map subdomain results = map fst (collectHosts inputs)"
    and "r \<in> set results \<Longrightarrow>
      \<exists>e stamp. e = entryOf (collectHosts inputs) (subdomain r) \<and>
        hostResult (clock 0) stamp inputs e = Inr r"
proof -
  let ?m = "collectHosts inputs"
  from ok have b: "buildResults clock inputs 0 (map snd ?m) = Inr results"
    by (simp add: normalizeRecon_def)
  from buildResults_Inr [OF b] have len: "length results = length ?m"
    and nth: "\<And>i. i < length ?m \<Longrightarrow>
      hostResult (clock 0) (clock (0 + i + 1)) inputs (snd (?m ! i)) = Inr (results ! i)"
    by simp_all
  have key: "subdomain (results ! i) = fst (?m ! i) \<and>
      snd (?m ! i) = entryOf ?m (subdomain (results ! i))" if i: "i < length ?m" for i
  proof -
    from i have mem: "(fst (?m ! i), snd (?m ! i)) \<in> set ?m" by simp
    from hostResult_fields(1) [OF nth [OF i]] collectHosts_entry [OF mem]
    show ?thesis by simp
  qed
  show "map subdomain results = map fst ?m"
    using len key by (simp add: list_eq_iff_nth_eq)
  assume "r \<in> set results"
  then obtain i where i: "i < length ?m" and r: "r = results ! i"
    using len by (auto simp: in_set_conv_nth)
  from key [OF i] nth [OF i] r
  have "snd (?m ! i) = entryOf ?m (subdomain r) \<and>
      hostResult (clock 0) (clock (0 + i + 1)) inputs (snd (?m ! i)) = Inr r"
    by simp
  then show "\<exists>e stamp. e = entryOf ?m (subdomain r) \<and> hostResult (clock 0) stamp inputs e = Inr r"
    by blast
qed

text \<open>
  C3, as stated, has title, web server and country keep the first non-empty value seen.
  In the example httpx reports the titles Welcome and Maintenance and the web servers
  nginx and apache for the same host, and securitytrails the countries US and DE: the
  record keeps both titles and both web servers, and the country reported last.
\<close>

theorem normalizeRecon_first_value_counterexample:
  "normalizeRecon exampleClock exampleRecon = Inr [exampleReconResult] \<and>
   map hx_title (ensureArray (httpx exampleRecon)) = [Some ''Welcome'', Some ''Maintenance''] \<and>
   map hx_webserver (ensureArray (httpx exampleRecon)) = [Some ''nginx'', Some ''apache''] \<and>
   map st_country (ensureArray (securitytrails exampleRecon)) = [Some ''US'', Some ''DE''] \<and>
   fp_titles (fingerprints exampleReconResult) = [''Welcome'', ''Maintenance''] \<and>
   fp_webservers (fingerprints exampleReconResult) = [''nginx'', ''apache''] \<and>
   fp_country (fingerprints exampleReconResult) = Some ''DE''"
  by (simp add: exampleRecon_result) (simp add: exampleRecon_def exampleReconResult_def ensureArray_def)

lemma buildResults_returns:
  "(\<exists>rs. buildResults clock inputs k es = Inr rs) \<longleftrightarrow>
   list_all (\<lambda>e. list_all (\<lambda>pd. parsePort pd \<noteq> None) (ports e)) es"
proof (induction es arbitrary: k)
  case Nil
  then show ?case by simp
next
  case (Cons e es)
  show ?case
  proof (cases "list_all (\<lambda>pd. parsePort pd \<noteq> None) (ports e)")
    case True
    then obtain r where r: "hostResult (clock 0) (clock (k + 1)) inputs e = Inr r"
      by (simp add: hostResult_def Let_def)
    from Cons.IH [of "k + 1"] True r show ?thesis
      by (auto split: sum.splits)
  next
    case False
    then have "hostResult (clock 0) (clock (k + 1)) inputs e = Inl ZodError"
      by (simp add: hostResult_def Let_def)
    with False show ?thesis by simp
  qed
qed

lemma normalizeRecon_hosts:
  assumes ok: "normalizeRecon clock inputs = Inr results"
  shows
  "distinct (map subdomain results) \<and>
      set (map subdomain results) =
        sf_host ` set (ensureArray (subfinder inputs)) \<union> node_name ` set (ensureArray (amass inputs)) \<union>
        hx_host ` set (ensureArray (httpx inputs)) \<union> st_hostname ` set (ensureArray (securitytrails inputs))"
  using normalizeRecon_entries(1) [OF ok] keys_collectHosts [of inputs] by simp

lemma normalizeRecon_record:
  assumes ok: "normalizeRecon clock inputs = Inr results" and r: "r \<in> set results"
  shows
  "(ip r = None \<longleftrightarrow>
            {i. \<exists>e \<in> set (ensureArray (subfinder inputs)). sf_host e = subdomain r \<and> sf_ip e = Some i \<and> i \<noteq> []} \<union>
            {i. \<exists>n \<in> set (ensureArray (amass inputs)). node_name n = subdomain r \<and> i \<in> set (node_addresses n)} \<union>
            {i. \<exists>e \<in> set (ensureArray (httpx inputs)). hx_host e = subdomain r \<and> i \<in> set (ensureArray (hx_a e))} = {}) \<and>
         (\<forall>a. ip r = Some a \<longrightarrow> a \<in>
            {i. \<exists>e \<in> set (ensureArray (subfinder inputs)). sf_host e = subdomain r \<and> sf_ip e = Some i \<and> i \<noteq> []} \<union>
            {i. \<exists>n \<in> set (ensureArray (amass inputs)). node_name n = subdomain r \<and> i \<in> set (node_addresses n)} \<union>
            {i. \<exists>e \<in> set (ensureArray (httpx inputs)). hx_host e = subdomain r \<and> i \<in> set (ensureArray (hx_a e))}) \<and>
         set (rr_tech r) =
           {t. \<exists>e \<in> set (ensureArray (httpx inputs)). hx_host e = subdomain r \<and> t \<in> set (ensureArray (hx_tech e))} \<and>
         set (concat (map contributors (rr_sources r))) =
           {''subfinder:'' @ s | s. \<exists>e \<in> set (ensureArray (subfinder inputs)).
              sf_host e = subdomain r \<and> sf_source e = Some s \<and> s \<noteq> []} \<union>
           {''amass:'' @ s | s. \<exists>n \<in> set (ensureArray (amass inputs)).
              node_name n = subdomain r \<and> s \<in> set (node_sources n)} \<union>
           {''securitytrails:'' @ s | s. \<exists>t \<in> set (ensureArray (securitytrails inputs)).
              st_hostname t = subdomain r \<and> st_organization t = Some s \<and> s \<noteq> []} \<and>
         isAlive r =
           (\<exists>e \<in> set (ensureArray (httpx inputs)). hx_host e = subdomain r \<and> hx_status_code e < 500) \<and>
         set (fp_titles (fingerprints r)) =
           {t. \<exists>e \<in> set (ensureArray (httpx inputs)). hx_host e = subdomain r \<and> hx_title e = Some t \<and> t \<noteq> []} \<and>
         set (fp_webservers (fingerprints r)) =
           {w. \<exists>e \<in> set (ensureArray (httpx inputs)). hx_host e = subdomain r \<and> hx_webserver e = Some w \<and> w \<noteq> []} \<and>
         fp_country (fingerprints r) =
           (if reportedCountries (subdomain r) (ensureArray (securitytrails inputs)) = [] then None
            else Some (last (reportedCountries (subdomain r) (ensureArray (securitytrails inputs)))))"
proof -
  let ?h = "subdomain r"
  let ?e = "entryOf (collectHosts inputs) ?h"
  from normalizeRecon_entries(2) [OF ok r] obtain stamp
    where hr: "hostResult (clock 0) stamp inputs ?e = Inr r" by blast
  note f = hostResult_fields [OF hr]
  have ipn: "ip r = None \<longleftrightarrow> set (ips ?e) = {}"
    using f(2) by (simp split: list.splits)
  have ips: "\<forall>a. ip r = Some a \<longrightarrow> a \<in> set (ips ?e)"
    using f(2) by (auto split: list.splits)
  have src: "set (concat (map contributors (rr_sources r))) = set (sources ?e)"
    using f(7) by simp
  have hst: "host ?e = ?h" by (rule host_entryOf_collectHosts)
  show ?thesis
    using ipn ips src f(3,4,5,6,8) hst
    unfolding collectHosts_ips [of inputs ?h, symmetric] collectHosts_tech [of inputs ?h, symmetric]
      collectHosts_sources [of inputs ?h, symmetric] collectHosts_liveness [of inputs ?h, symmetric]
      collectHosts_titles [of inputs ?h, symmetric] collectHosts_webservers [of inputs ?h, symmetric]
      country_of_host [of inputs ?h, symmetric]
    by simp
qed

text \<open>
  C3 (amended): normalization returns exactly when every port collected for every host
  passes the port schema, and then there is exactly one record per host string reported
  by any source, and in the record of a host
  \<^item> the technology names are the union of those httpx reports for the host, and the
    provenance tags the union of the \<open>source:detail\<close> tags of subfinder, amass and
    securitytrails;
  \<^item> the IP addresses of the three sources that report them are accumulated, and the
    record's \<open>ip\<close> is one of them, absent only if there is none;
  \<^item> liveness is the disjunction of \<open>status_code < 500\<close> over the host's httpx entries;
  \<^item> titles and web servers are the sets of all non-empty values reported for the host;
  \<^item> the country is the last non-empty country securitytrails reports for the host.
\<close>

theorem normalizeRecon_merge:
  "((\<exists>results. normalizeRecon clock inputs = Inr results) \<longleftrightarrow>
      list_all (\<lambda>e. list_all (\<lambda>pd. parsePort pd \<noteq> None) (ports e))
        (map snd (collectHosts inputs))) \<and>
   (\<forall>results. normalizeRecon clock inputs = Inr results \<longrightarrow>
      distinct (map subdomain results) \<and>
      set (map subdomain results) =
        sf_host ` set (ensureArray (subfinder inputs)) \<union> node_name ` set (ensureArray (amass inputs)) \<union>
        hx_host ` set (ensureArray (httpx inputs)) \<union> st_hostname ` set (ensureArray (securitytrails inputs)) \<and>
      (\<forall>r \<in> set results.
         (ip r = None \<longleftrightarrow>
            {i. \<exists>e \<in> set (ensureArray (subfinder inputs)). sf_host e = subdomain r \<and> sf_ip e = Some i \<and> i \<noteq> []} \<union>
            {i. \<exists>n \<in> set (ensureArray (amass inputs)). node_name n = subdomain r \<and> i \<in> set (node_addresses n)} \<union>
            {i. \<exists>e \<in> set (ensureArray (httpx inputs)). hx_host e = subdomain r \<and> i \<in> set (ensureArray (hx_a e))} = {}) \<and>
         (\<forall>a. ip r = Some a \<longrightarrow> a \<in>
            {i. \<exists>e \<in> set (ensureArray (subfinder inputs)). sf_host e = subdomain r \<and> sf_ip e = Some i \<and> i \<noteq> []} \<union>
            {i. \<exists>n \<in> set (ensureArray (amass inputs)). node_name n = subdomain r \<and> i \<in> set (node_addresses n)} \<union>
            {i. \<exists>e \<in> set (ensureArray (httpx inputs)). hx_host e = subdomain r \<and> i \<in> set (ensureArray (hx_a e))}) \<and>
         set (rr_tech r) =
           {t. \<exists>e \<in> set (ensureArray (httpx inputs)). hx_host e = subdomain r \<and> t \<in> set (ensureArray (hx_tech e))} \<and>
         set (concat (map contributors (rr_sources r))) =
           {''subfinder:'' @ s | s. \<exists>e \<in> set (ensureArray (subfinder inputs)).
              sf_host e = subdomain r \<and> sf_source e = Some s \<and> s \<noteq> []} \<union>
           {''amass:'' @ s | s. \<exists>n \<in> set (ensureArray (amass inputs)).
              node_name n = subdomain r \<and> s \<in> set (node_sources n)} \<union>
           {''securitytrails:'' @ s | s. \<exists>t \<in> set (ensureArray (securitytrails inputs)).
              st_hostname t = subdomain r \<and> st_organization t = Some s \<and> s \<noteq> []} \<and>
         isAlive r =
           (\<exists>e \<in> set (ensureArray (httpx inputs)). hx_host e = subdomain r \<and> hx_status_code e < 500) \<and>
         set (fp_titles (fingerprints r)) =
           {t. \<exists>e \<in> set (ensureArray (httpx inputs)). hx_host e = subdomain r \<and> hx_title e = Some t \<and> t \<noteq> []} \<and>
         set (fp_webservers (fingerprints r)) =
           {w. \<exists>e \<in> set (ensureArray (httpx inputs)). hx_host e = subdomain r \<and> hx_webserver e = Some w \<and> w \<noteq> []} \<and>
         fp_country (fingerprints r) =
           (if reportedCountries (subdomain r) (ensureArray (securitytrails inputs)) = [] then None
            else Some (last (reportedCountries (subdomain r) (ensureArray (securitytrails inputs)))))))"
proof (rule conjI)
  show "(\<exists>results. normalizeRecon clock inputs = Inr results) \<longleftrightarrow>
      list_all (\<lambda>e. list_all (\<lambda>pd. parsePort pd \<noteq> None) (ports e))
        (map snd (collectHosts inputs))"
    unfolding normalizeRecon_def by (rule buildResults_returns)
next
  show "(\<forall>results. normalizeRecon clock inputs = Inr results \<longrightarrow>
      distinct (map subdomain results) \<and>
      set (map subdomain results) =
        sf_host ` set (ensureArray (subfinder inputs)) \<union> node_name ` set (ensureArray (amass inputs)) \<union>
        hx_host ` set (ensureArray (httpx inputs)) \<union> st_hostname ` set (ensureArray (securitytrails inputs)) \<and>
      (\<forall>r \<in> set results.
         (ip r = None \<longleftrightarrow>
            {i. \<exists>e \<in> set (ensureArray (subfinder inputs)). sf_host e = subdomain r \<and> sf_ip e = Some i \<and> i \<noteq> []} \<union>
            {i. \<exists>n \<in> set (ensureArray (amass inputs)). node_name n = subdomain r \<and> i \<in> set (node_addresses n)} \<union>
            {i. \<exists>e \<in> set (ensureArray (httpx inputs)). hx_host e = subdomain r \<and> i \<in> set (ensureArray (hx_a e))} = {}) \<and>
         (\<forall>a. ip r = Some a \<longrightarrow> a \<in>
            {i. \<exists>e \<in> set (ensureArray (subfinder inputs)). sf_host e = subdomain r \<and> sf_ip e = Some i \<and> i \<noteq> []} \<union>
            {i. \<exists>n \<in> set (ensureArray (amass inputs)). node_name n = subdomain r \<and> i \<in> set (node_addresses n)} \<union>
            {i. \<exists>e \<in> set (ensureArray (httpx inputs)). hx_host e = subdomain r \<and> i \<in> set (ensureArray (hx_a e))}) \<and>
         set (rr_tech r) =
           {t. \<exists>e \<in> set (ensureArray (httpx inputs)). hx_host e = subdomain r \<and> t \<in> set (ensureArray (hx_tech e))} \<and>
         set (concat (map contributors (rr_sources r))) =
           {''subfinder:'' @ s | s. \<exists>e \<in> set (ensureArray (subfinder inputs)).
              sf_host e = subdomain r \<and> sf_source e = Some s \<and> s \<noteq> []} \<union>
           {''amass:'' @ s | s. \<exists>n \<in> set (ensureArray (amass inputs)).
              node_name n = subdomain r \<and> s \<in> set (node_sources n)} \<union>
           {''securitytrails:'' @ s | s. \<exists>t \<in> set (ensureArray (securitytrails inputs)).
              st_hostname t = subdomain r \<and> st_organization t = Some s \<and> s \<noteq> []} \<and>
         isAlive r =
           (\<exists>e \<in> set (ensureArray (httpx inputs)). hx_host e = subdomain r \<and> hx_status_code e < 500) \<and>
         set (fp_titles (fingerprints r)) =
           {t. \<exists>e \<in> set (ensureArray (httpx inputs)). hx_host e = subdomain r \<and> hx_title e = Some t \<and> t \<noteq> []} \<and>
         set (fp_webservers (fingerprints r)) =
           {w. \<exists>e \<in> set (ensureArray (httpx inputs)). hx_host e = subdomain r \<and> hx_webserver e = Some w \<and> w \<noteq> []} \<and>
         fp_country (fingerprints r) =
           (if reportedCountries (subdomain r) (ensureArray (securitytrails inputs)) = [] then None
            else Some (last (reportedCountries (subdomain r) (ensureArray (securitytrails inputs)))))))"
  proof (intro allI impI)
    fix results
    assume ok: "normalizeRecon clock inputs = Inr results"
    show "distinct (map subdomain results) \<and>
      set (map subdomain results) =
        sf_host ` set (ensureArray (subfinder inputs)) \<union> node_name ` set (ensureArray (amass inputs)) \<union>
        hx_host ` set (ensureArray (httpx inputs)) \<union> st_hostname ` set (ensureArray (securitytrails inputs)) \<and>
      (\<forall>r \<in> set results.
         (ip r = None \<longleftrightarrow>
            {i. \<exists>e \<in> set (ensureArray (subfinder inputs)). sf_host e = subdomain r \<and> sf_ip e = Some i \<and> i \<noteq> []} \<union>
            {i. \<exists>n \<in> set (ensureArray (amass inputs)). node_name n = subdomain r \<and> i \<in> set (node_addresses n)} \<union>
            {i. \<exists>e \<in> set (ensureArray (httpx inputs)). hx_host e = subdomain r \<and> i \<in> set (ensureArray (hx_a e))} = {}) \<and>
         (\<forall>a. ip r = Some a \<longrightarrow> a \<in>
            {i. \<exists>e \<in> set (ensureArray (subfinder inputs)). sf_host e = subdomain r \<and> sf_ip e = Some i \<and> i \<noteq> []} \<union>
            {i. \<exists>n \<in> set (ensureArray (amass inputs)). node_name n = subdomain r \<and> i \<in> set (node_addresses n)} \<union>
            {i. \<exists>e \<in> set (ensureArray (httpx inputs)). hx_host e = subdomain r \<and> i \<in> set (ensureArray (hx_a e))}) \<and>
         set (rr_tech r) =
           {t. \<exists>e \<in> set (ensureArray (httpx inputs)). hx_host e = subdomain r \<and> t \<in> set (ensureArray (hx_tech e))} \<and>
         set (concat (map contributors (rr_sources r))) =
           {''subfinder:'' @ s | s. \<exists>e \<in> set (ensureArray (subfinder inputs)).
              sf_host e = subdomain r \<and> sf_source e = Some s \<and> s \<noteq> []} \<union>
           {''amass:'' @ s | s. \<exists>n \<in> set (ensureArray (amass inputs)).
              node_name n = subdomain r \<and> s \<in> set (node_sources n)} \<union>
           {''securitytrails:'' @ s | s. \<exists>t \<in> set (ensureArray (securitytrails inputs)).
              st_hostname t = subdomain r \<and> st_organization t = Some s \<and> s \<noteq> []} \<and>
         isAlive r =
           (\<exists>e \<in> set (ensureArray (httpx inputs)). hx_host e = subdomain r \<and> hx_status_code e < 500) \<and>
         set (fp_titles (fingerprints r)) =
           {t. \<exists>e \<in> set (ensureArray (httpx inputs)). hx_host e = subdomain r \<and> hx_title e = Some t \<and> t \<noteq> []} \<and>
         set (fp_webservers (fingerprints r)) =
           {w. \<exists>e \<in> set (ensureArray (httpx inputs)). hx_host e = subdomain r \<and> hx_webserver e = Some w \<and> w \<noteq> []} \<and>
         fp_country (fingerprints r) =
           (if reportedCountries (subdomain r) (ensureArray (securitytrails inputs)) = [] then None
            else Some (last (reportedCountries (subdomain r) (ensureArray (securitytrails inputs))))))"
      by (rule conjI, rule conjunct1 [OF normalizeRecon_hosts [OF ok]],
          rule conjI, rule conjunct2 [OF normalizeRecon_hosts [OF ok]],
          rule ballI, erule normalizeRecon_record [OF ok])
  qed
qed

theorem normalizeRecon_merge_witness:
  "normalizeRecon exampleClock exampleRecon = Inr [exampleReconResult] \<and>
   list_all (\<lambda>e. list_all (\<lambda>pd. parsePort pd \<noteq> None) (ports e))
     (map snd (collectHosts exampleRecon)) \<and>
   exampleReconResult \<in> set [exampleReconResult] \<and>
   set (map subdomain [exampleReconResult]) =
     sf_host ` set (ensureArray (subfinder exampleRecon)) \<union>
     node_name ` set (ensureArray (amass exampleRecon)) \<union>
     hx_host ` set (ensureArray (httpx exampleRecon)) \<union>
     st_hostname ` set (ensureArray (securitytrails exampleRecon)) \<and>
   isAlive exampleReconResult =
     (\<exists>e \<in> set (ensureArray (httpx exampleRecon)).
        hx_host e = subdomain exampleReconResult \<and> hx_status_code e < 500) \<and>
   fp_country (fingerprints exampleReconResult) =
     (if reportedCountries (subdomain exampleReconResult) (ensureArray (securitytrails exampleRecon)) = []
      then None
      else Some (last (reportedCountries (subdomain exampleReconResult)
                         (ensureArray (securitytrails exampleRecon)))))"
proof -
  have m: "exampleReconResult \<in> set [exampleReconResult]" by simp
  note T = normalizeRecon_merge [of exampleClock exampleRecon]
  have ex: "\<exists>results. normalizeRecon exampleClock exampleRecon = Inr results"
    using exampleRecon_result by blast
  note valid = T [THEN conjunct1, THEN iffD1, OF ex]
  note R = T [THEN conjunct2, rule_format, OF exampleRecon_result]
  note hosts = R [THEN conjunct2, THEN conjunct1]
  note P = R [THEN conjunct2, THEN conjunct2, THEN bspec, OF m]
  note alive = P [THEN conjunct2, THEN conjunct2, THEN conjunct2, THEN conjunct2, THEN conjunct1]
  note country = P [THEN conjunct2, THEN conjunct2, THEN conjunct2, THEN conjunct2, THEN conjunct2,
      THEN conjunct2, THEN conjunct2]
  from exampleRecon_result valid m hosts alive country show ?thesis by (intro conjI)
qed

lemma hostResult_clock:
  "map_sum id withoutTimestamps (hostResult now stamp inputs e) =
   map_sum id withoutTimestamps (hostResult now' stamp' inputs e)"
  by (simp add: hostResult_def withoutTimestamps_def Let_def)

lemma buildResults_clock:
  "map_sum id (map withoutTimestamps) (buildResults clock inputs k es) =
   map_sum id (map withoutTimestamps) (buildResults clock' inputs k' es)"
proof (induction es arbitrary: k k')
  case Nil
  then show ?case by simp
next
  case (Cons e es)
  show ?case
    using hostResult_clock [of "clock 0" "clock (k + 1)" inputs e "clock' 0" "clock' (k' + 1)"]
      Cons.IH [of "k + 1" "k' + 1"]
    by (auto split: sum.splits)
qed

text \<open>
  C9: two runs of \<open>normalizeRecon\<close> on the same inputs, at whatever times, both throw or
  return the same records up to the timestamps \<open>lastChecked\<close>, \<open>createdAt\<close> and
  \<open>updatedAt\<close>: same hosts, IPs, ports, technologies, liveness, fingerprints and
  provenance, in the same order.
\<close>

theorem normalizeRecon_rerun:
  "map_sum id (map withoutTimestamps) (normalizeRecon clock inputs) =
   map_sum id (map withoutTimestamps) (normalizeRecon clock' inputs)"
  unfolding normalizeRecon_def by (rule buildResults_clock)

end
